theory Spec2Isabelle
  imports Main
begin

section \<open>The Bing image downloader (GetImage.py)\<close>

text \<open>
  The script is a sequence of effects: one HTTP GET for the metadata, a test for an
  existing file, one streamed HTTP GET for the image, and two file writes. The embedding
  threads an explicit \<open>world\<close> (file system, clock, remote server, log, standard output)
  through every call. Every operation returns a pair: the outcome (\<open>Inl\<close> an exception,
  \<open>Inr\<close> a value) and the world it leaves behind, since an exception does not undo the
  effects that came before it.
\<close>

subsection \<open>JSON values and Python exceptions\<close>

text \<open>
  What \<open>response.json()\<close> returns. A Python \<open>dict\<close> keeps its keys in insertion order,
  so an object is an association list. Numbers are integers: floating point numbers are
  outside this model. A character of a string is a code point below 256.
\<close>

datatype json =
    JNull
  | JBool bool
  | JNum int
  | JStr string
  | JArr "json list"
  | JObj "(string \<times> json) list"

datatype oserror =
    FileNotFoundError
  | FileExistsError
  | IsADirectoryError
  | NotADirectoryError
  | PermissionError
  | NoSpaceLeft

datatype error =
    HTTPError nat
  | ConnectionError
  | ChunkedEncodingError
  | JSONDecodeError
  | KeyError json
  | IndexError
  | TypeError
  | AttributeError
  | OSError oserror

text \<open>
  The subclasses of \<open>requests.RequestException\<close> among these (in requests 2.27 and later
  the error of \<open>response.json()\<close> is one of them).
\<close>

fun is_RequestException :: "error \<Rightarrow> bool" where
  "is_RequestException (HTTPError _) = True"
| "is_RequestException ConnectionError = True"
| "is_RequestException ChunkedEncodingError = True"
| "is_RequestException JSONDecodeError = True"
| "is_RequestException _ = False"

subsection \<open>The world\<close>

type_synonym bytes = string

type_synonym loc = "string list"

datatype node = File bytes | Dir

record date =
  year :: nat
  month :: nat
  day :: nat

record response =
  status_code :: nat
  json_body :: "json option"
  chunks :: "bytes list"
  broken :: bool

datatype http_outcome = Refused | Response response

datatype log_entry =
    Info_Created_directory string
  | Error_fetching_image_URL error
  | Info_Image_already_exists string
  | Info_Successfully_downloaded string
  | Error_downloading_image error

datatype out_line =
    Image_downloaded_successfully_to string
  | Error_line error

text \<open>
  \<^item> \<open>fs\<close>: the entries of the file system, by location (the list of the names on the
    way; see \<open>resolve\<close>). There are no symbolic links, and \<open>..\<close> is a name like any other.
  \<^item> \<open>denied\<close>: the locations that may not be created or opened for writing.
  \<^item> \<open>disk_free\<close>: the number of bytes that can still be written.
  \<^item> \<open>today\<close>: the local date, \<open>datetime.now()\<close>.
  \<^item> \<open>http\<close>: what a GET of a URL ends in, after redirects. In a \<open>response\<close>,
    \<open>json_body\<close> is the body decoded as JSON (\<open>None\<close>: it is not valid JSON),
    \<open>chunks\<close> is the body as \<open>iter_content(chunk_size=8192)\<close> yields it, and \<open>broken\<close>
    says that the connection breaks after the last of these chunks.
  \<^item> \<open>sent\<close>: the URLs requested so far, oldest first.
  \<^item> \<open>log\<close>, \<open>stdout\<close>: the records logged and the lines printed so far.
\<close>

record world =
  fs :: "loc \<Rightarrow> node option"
  denied :: "loc \<Rightarrow> bool"
  disk_free :: nat
  today :: date
  http :: "string \<Rightarrow> http_outcome"
  sent :: "string list"
  log :: "log_entry list"
  stdout :: "out_line list"

subsection \<open>Paths (posixpath)\<close>

text \<open>The text between the separators: \<open>split_slash ''a//b'' = [''a'', '''', ''b'']\<close>.\<close>

fun split_slash :: "string \<Rightarrow> string list" where
  "split_slash [] = [[]]"
| "split_slash (c # cs) =
     (if c = CHR ''/'' then [] # split_slash cs
      else (case split_slash cs of [] \<Rightarrow> [[c]] | x # xs \<Rightarrow> (c # x) # xs))"

definition names :: "string \<Rightarrow> string list" where
  "names p = filter (\<lambda>f. f \<noteq> [] \<and> f \<noteq> ''.'') (split_slash p)"

text \<open>
  The location a path names: repeated and trailing separators and \<open>.\<close> do not count;
  an absolute path starts at \<open>''/''\<close>, a relative one at the working directory \<open>[]\<close>.
\<close>

definition resolve :: "string \<Rightarrow> loc" where
  "resolve p = (if p \<noteq> [] \<and> hd p = CHR ''/'' then [''/''] else []) @ names p"

text \<open>\<open>os.path.join(a, b)\<close>\<close>

definition os_path_join :: "string \<Rightarrow> string \<Rightarrow> string" where
  "os_path_join a b =
     (if b \<noteq> [] \<and> hd b = CHR ''/'' then b
      else if a = [] \<or> last a = CHR ''/'' then a @ b
      else a @ ''/'' @ b)"

subsection \<open>The file system\<close>

text \<open>The root and the working directory are always there.\<close>

definition node_at :: "world \<Rightarrow> loc \<Rightarrow> node option" where
  "node_at w l = (if l = [] \<or> l = [''/''] then Some Dir else fs w l)"

text \<open>\<open>os.path.exists(p)\<close>\<close>

definition os_path_exists :: "world \<Rightarrow> string \<Rightarrow> bool" where
  "os_path_exists w p = (p \<noteq> [] \<and> node_at w (resolve p) \<noteq> None)"

text \<open>
  \<open>os.mkdir(p)\<close>: the entry must be new and its parent an existing directory.
\<close>

definition mkdir_at :: "loc \<Rightarrow> world \<Rightarrow> (error + unit) \<times> world" where
  "mkdir_at l w =
     (if node_at w l \<noteq> None then (Inl (OSError FileExistsError), w)
      else case node_at w (butlast l) of
             None \<Rightarrow> (Inl (OSError FileNotFoundError), w)
           | Some (File _) \<Rightarrow> (Inl (OSError NotADirectoryError), w)
           | Some Dir \<Rightarrow>
               if denied w l then (Inl (OSError PermissionError), w)
               else (Inr (), w\<lparr>fs := (fs w)(l \<mapsto> Dir)\<rparr>))"

text \<open>
  \<open>os.makedirs(p)\<close> at the location \<open>pre @ rest\<close>, where \<open>pre\<close> is known to exist or has
  just been made: every missing directory on the way is made, the last one must be new.
\<close>

fun makedirs_from :: "loc \<Rightarrow> loc \<Rightarrow> world \<Rightarrow> (error + unit) \<times> world" where
  "makedirs_from pre [] w = (Inr (), w)"
| "makedirs_from pre [n] w = mkdir_at (pre @ [n]) w"
| "makedirs_from pre (n # ns) w =
     (if node_at w (pre @ [n]) \<noteq> None then makedirs_from (pre @ [n]) ns w
      else case mkdir_at (pre @ [n]) w of
             (Inl e, w') \<Rightarrow> (Inl e, w')
           | (Inr _, w') \<Rightarrow> makedirs_from (pre @ [n]) ns w')"

definition os_makedirs :: "string \<Rightarrow> world \<Rightarrow> (error + unit) \<times> world" where
  "os_makedirs p w =
     (if p = [] then (Inl (OSError FileNotFoundError), w)
      else if resolve p = [] \<or> resolve p = [''/''] then (Inl (OSError FileExistsError), w)
      else if hd p = CHR ''/'' then makedirs_from [''/''] (names p) w
      else makedirs_from [] (names p) w)"

text \<open>
  \<open>open(p, 'w')\<close> and \<open>open(p, 'wb')\<close>: the file is created, or emptied when it is there
  (its bytes are free again).
\<close>

definition open_w :: "string \<Rightarrow> world \<Rightarrow> (error + loc) \<times> world" where
  "open_w p w =
     (let l = resolve p in
      if p = [] then (Inl (OSError FileNotFoundError), w)
      else if l = [] \<or> l = [''/''] then (Inl (OSError IsADirectoryError), w)
      else case node_at w (butlast l) of
             None \<Rightarrow> (Inl (OSError FileNotFoundError), w)
           | Some (File _) \<Rightarrow> (Inl (OSError NotADirectoryError), w)
           | Some Dir \<Rightarrow>
               (case fs w l of
                  Some Dir \<Rightarrow> (Inl (OSError IsADirectoryError), w)
                | Some (File old) \<Rightarrow>
                    if denied w l then (Inl (OSError PermissionError), w)
                    else (Inr l, w\<lparr>fs := (fs w)(l \<mapsto> File []),
                                     disk_free := disk_free w + length old\<rparr>)
                | None \<Rightarrow>
                    if denied w l then (Inl (OSError PermissionError), w)
                    else (Inr l, w\<lparr>fs := (fs w)(l \<mapsto> File [])\<rparr>)))"

text \<open>
  \<open>f.write(data)\<close> on the file opened at \<open>l\<close>: the bytes are appended; when the disk
  fills up, the bytes that still fit stay in the file and the write raises.
\<close>

definition content :: "world \<Rightarrow> loc \<Rightarrow> bytes" where
  "content w l = (case fs w l of Some (File b) \<Rightarrow> b | _ \<Rightarrow> [])"

definition f_write :: "loc \<Rightarrow> bytes \<Rightarrow> world \<Rightarrow> (error + unit) \<times> world" where
  "f_write l data w =
     (if length data \<le> disk_free w
      then (Inr (), w\<lparr>fs := (fs w)(l \<mapsto> File (content w l @ data)),
                      disk_free := disk_free w - length data\<rparr>)
      else (Inl (OSError NoSpaceLeft),
            w\<lparr>fs := (fs w)(l \<mapsto> File (content w l @ take (disk_free w) data)),
              disk_free := 0\<rparr>))"

subsection \<open>Decimal numbers and the date\<close>

definition digit_char :: "nat \<Rightarrow> char" where
  "digit_char n = char_of (48 + n)"

definition is_digit :: "char \<Rightarrow> bool" where
  "is_digit c = (48 \<le> (of_char c :: nat) \<and> (of_char c :: nat) \<le> 57)"

fun digits :: "nat \<Rightarrow> string" where
  "digits n = (if n < 10 then [digit_char n] else digits (n div 10) @ [digit_char (n mod 10)])"

declare digits.simps [simp del]

definition zfill :: "nat \<Rightarrow> string \<Rightarrow> string" where
  "zfill k s = replicate (k - length s) CHR ''0'' @ s"

text \<open>\<open>strftime("%Y%m%d")\<close>: the year on four digits, the month and the day on two.\<close>

definition strftime_Ymd :: "date \<Rightarrow> string" where
  "strftime_Ymd d = zfill 4 (digits (year d)) @ zfill 2 (digits (month d)) @ zfill 2 (digits (day d))"

subsection \<open>json.dump with indent=4\<close>

text \<open>
  The encoder with its defaults \<open>ensure_ascii=True\<close> and, because an indent is given,
  the separators \<open>","\<close> and \<open>": "\<close>. A character outside the printable ASCII range is
  written \<open>\uXXXX\<close>, except for the short escapes.
\<close>

definition hex_char :: "nat \<Rightarrow> char" where
  "hex_char n = (if n < 10 then char_of (48 + n) else char_of (87 + n))"

definition escape_char :: "char \<Rightarrow> string" where
  "escape_char c =
     (if c = CHR 0x22 then [CHR 0x5C, CHR 0x22]
      else if c = CHR 0x5C then [CHR 0x5C, CHR 0x5C]
      else if c = CHR 0x0A then [CHR 0x5C, CHR ''n'']
      else if c = CHR 0x0D then [CHR 0x5C, CHR ''r'']
      else if c = CHR 0x09 then [CHR 0x5C, CHR ''t'']
      else if c = CHR 0x08 then [CHR 0x5C, CHR ''b'']
      else if c = CHR 0x0C then [CHR 0x5C, CHR ''f'']
      else if 32 \<le> (of_char c :: nat) \<and> (of_char c :: nat) \<le> 126 then [c]
      else [CHR 0x5C, CHR ''u'', CHR ''0'', CHR ''0'',
            hex_char ((of_char c :: nat) div 16), hex_char ((of_char c :: nat) mod 16)])"

definition encode_str :: "string \<Rightarrow> string" where
  "encode_str s = [CHR 0x22] @ concat (map escape_char s) @ [CHR 0x22]"

definition encode_int :: "int \<Rightarrow> string" where
  "encode_int i = (if i < 0 then CHR ''-'' # digits (nat (- i)) else digits (nat i))"

definition newline_indent :: "nat \<Rightarrow> string" where
  "newline_indent level = CHR 0x0A # replicate (4 * level) CHR '' ''"

fun iterencode :: "nat \<Rightarrow> json \<Rightarrow> string"
  and iterencode_list :: "nat \<Rightarrow> json list \<Rightarrow> string"
  and iterencode_dict :: "nat \<Rightarrow> (string \<times> json) list \<Rightarrow> string"
where
  "iterencode level JNull = ''null''"
| "iterencode level (JBool b) = (if b then ''true'' else ''false'')"
| "iterencode level (JNum i) = encode_int i"
| "iterencode level (JStr s) = encode_str s"
| "iterencode level (JArr []) = ''[]''"
| "iterencode level (JArr (x # xs)) =
     ''['' @ newline_indent (level + 1) @ iterencode (level + 1) x
          @ iterencode_list (level + 1) xs @ newline_indent level @ '']''"
| "iterencode level (JObj []) = ''{}''"
| "iterencode level (JObj ((k, v) # kvs)) =
     ''{'' @ newline_indent (level + 1) @ encode_str k @ '': '' @ iterencode (level + 1) v
          @ iterencode_dict (level + 1) kvs @ newline_indent level @ ''}''"
| "iterencode_list level [] = []"
| "iterencode_list level (x # xs) =
     '','' @ newline_indent level @ iterencode level x @ iterencode_list level xs"
| "iterencode_dict level [] = []"
| "iterencode_dict level ((k, v) # kvs) =
     '','' @ newline_indent level @ encode_str k @ '': '' @ iterencode level v
         @ iterencode_dict level kvs"

definition json_dumps_indent4 :: "json \<Rightarrow> string" where
  "json_dumps_indent4 v = iterencode 0 v"

subsection \<open>requests\<close>

text \<open>\<open>requests.get(url)\<close>: the request is sent; the connection may fail.\<close>

definition requests_get :: "string \<Rightarrow> world \<Rightarrow> (error + response) \<times> world" where
  "requests_get url w =
     (let w' = w\<lparr>sent := sent w @ [url]\<rparr> in
      case http w url of
        Refused \<Rightarrow> (Inl ConnectionError, w')
      | Response r \<Rightarrow> (Inr r, w'))"

text \<open>\<open>response.raise_for_status()\<close> raises for the statuses 400 to 599, and for no other.\<close>

definition raise_for_status :: "response \<Rightarrow> error + unit" where
  "raise_for_status r =
     (if 400 \<le> status_code r \<and> status_code r < 600 then Inl (HTTPError (status_code r))
      else Inr ())"

text \<open>\<open>response.json()\<close>\<close>

definition response_json :: "response \<Rightarrow> error + json" where
  "response_json r = (case json_body r of None \<Rightarrow> Inl JSONDecodeError | Some v \<Rightarrow> Inr v)"

subsection \<open>Python operators on JSON values\<close>

text \<open>\<open>x[k]\<close> for a string \<open>k\<close>: only a dict can be indexed by a string.\<close>

fun getitem_str :: "json \<Rightarrow> string \<Rightarrow> error + json" where
  "getitem_str (JObj kvs) k =
     (case map_of kvs k of None \<Rightarrow> Inl (KeyError (JStr k)) | Some v \<Rightarrow> Inr v)"
| "getitem_str _ k = Inl TypeError"

text \<open>\<open>x[0]\<close>: the first element of a list, the first character of a string.\<close>

fun getitem_0 :: "json \<Rightarrow> error + json" where
  "getitem_0 (JArr []) = Inl IndexError"
| "getitem_0 (JArr (x # xs)) = Inr x"
| "getitem_0 (JStr []) = Inl IndexError"
| "getitem_0 (JStr (c # cs)) = Inr (JStr [c])"
| "getitem_0 (JObj kvs) = Inl (KeyError (JNum 0))"
| "getitem_0 _ = Inl TypeError"

text \<open>\<open>s + x\<close> for a string \<open>s\<close>\<close>

fun str_add :: "string \<Rightarrow> json \<Rightarrow> error + string" where
  "str_add s (JStr t) = Inr (s @ t)"
| "str_add s _ = Inl TypeError"

text \<open>\<open>s.replace(old, new)\<close> for one-character \<open>old\<close> and \<open>new\<close>\<close>

fun str_replace :: "char \<Rightarrow> char \<Rightarrow> string \<Rightarrow> string" where
  "str_replace old new [] = []"
| "str_replace old new (c # cs) = (if c = old then new else c) # str_replace old new cs"

text \<open>
  \<open>image_data.get("title", "bing_image").replace(" ", "_")\<close>: the value under the key
  when there is one, which has a \<open>replace\<close> method only when it is a string.
\<close>

definition get_title_replaced :: "json \<Rightarrow> error + string" where
  "get_title_replaced image_data =
     (case image_data of
        JObj kvs \<Rightarrow>
          (case map_of kvs ''title'' of
             None \<Rightarrow> Inr (str_replace CHR '' '' CHR ''_'' ''bing_image'')
           | Some (JStr t) \<Rightarrow> Inr (str_replace CHR '' '' CHR ''_'' t)
           | Some _ \<Rightarrow> Inl AttributeError)
      | _ \<Rightarrow> Inl AttributeError)"

subsection \<open>class BingImageDownloader\<close>

record downloader =
  save_dir :: string
  bing_api_url :: string
  bing_base_url :: string

definition logger :: "log_entry \<Rightarrow> world \<Rightarrow> world" where
  "logger e w = w\<lparr>log := log w @ [e]\<rparr>"

definition print :: "out_line \<Rightarrow> world \<Rightarrow> world" where
  "print x w = w\<lparr>stdout := stdout w @ [x]\<rparr>"

text \<open>\<open>__init__\<close> (lines 15 to 29)\<close>

definition init :: "string \<Rightarrow> world \<Rightarrow> (error + downloader) \<times> world" where
  "init dir w =
     (let self = \<lparr>save_dir = dir,
                  bing_api_url = ''https://www.bing.com/HPImageArchive.aspx?format=js&idx=0&n=1'',
                  bing_base_url = ''https://www.bing.com''\<rparr>
      in if \<not> os_path_exists w dir
         then (case os_makedirs dir w of
                 (Inl e, w') \<Rightarrow> (Inl e, w')
               | (Inr _, w') \<Rightarrow> (Inr self, logger (Info_Created_directory dir) w'))
         else (Inr self, w))"

text \<open>\<open>get_image_url\<close>: the body of the \<open>try\<close> (lines 39 to 47), then the handler.\<close>

definition get_image_url_try :: "downloader \<Rightarrow> world \<Rightarrow> (error + string \<times> json) \<times> world" where
  "get_image_url_try self w =
     (case requests_get (bing_api_url self) w of
        (Inl e, w1) \<Rightarrow> (Inl e, w1)
      | (Inr r, w1) \<Rightarrow>
          (case raise_for_status r of Inl e \<Rightarrow> (Inl e, w1) | Inr _ \<Rightarrow>
           case response_json r of Inl e \<Rightarrow> (Inl e, w1) | Inr data \<Rightarrow>
           case getitem_str data ''images'' of Inl e \<Rightarrow> (Inl e, w1) | Inr images \<Rightarrow>
           case getitem_0 images of Inl e \<Rightarrow> (Inl e, w1) | Inr image_data \<Rightarrow>
           case getitem_str image_data ''url'' of Inl e \<Rightarrow> (Inl e, w1) | Inr u \<Rightarrow>
           case str_add (bing_base_url self) u of Inl e \<Rightarrow> (Inl e, w1) | Inr image_url \<Rightarrow>
           (Inr (image_url, image_data), w1)))"

definition get_image_url :: "downloader \<Rightarrow> world \<Rightarrow> (error + string \<times> json) \<times> world" where
  "get_image_url self w =
     (case get_image_url_try self w of
        (Inl e, w1) \<Rightarrow>
          (Inl e, if is_RequestException e then logger (Error_fetching_image_URL e) w1 else w1)
      | (Inr x, w1) \<Rightarrow> (Inr x, w1))"

text \<open>Lines 65 to 67: the name of the image file.\<close>

definition image_filename :: "string \<Rightarrow> json \<Rightarrow> error + string" where
  "image_filename date_str image_data =
     (case get_title_replaced image_data of
        Inl e \<Rightarrow> Inl e
      | Inr title \<Rightarrow> Inr (date_str @ ''_'' @ title @ ''.jpg''))"

text \<open>Lines 80 to 83: the loop over the chunks, inside the \<open>with\<close> block.\<close>

fun write_chunks :: "loc \<Rightarrow> bytes list \<Rightarrow> world \<Rightarrow> (error + unit) \<times> world" where
  "write_chunks f [] w = (Inr (), w)"
| "write_chunks f (chunk # rest) w =
     (if chunk \<noteq> []
      then (case f_write f chunk w of
              (Inl e, w') \<Rightarrow> (Inl e, w')
            | (Inr _, w') \<Rightarrow> write_chunks f rest w')
      else write_chunks f rest w)"

definition save_image :: "string \<Rightarrow> response \<Rightarrow> world \<Rightarrow> (error + unit) \<times> world" where
  "save_image file_path r w =
     (case open_w file_path w of
        (Inl e, w1) \<Rightarrow> (Inl e, w1)
      | (Inr f, w1) \<Rightarrow>
          (case write_chunks f (chunks r) w1 of
             (Inl e, w2) \<Rightarrow> (Inl e, w2)
           | (Inr _, w2) \<Rightarrow> if broken r then (Inl ChunkedEncodingError, w2) else (Inr (), w2)))"

text \<open>Lines 89 to 90.\<close>

definition save_metadata :: "string \<Rightarrow> json \<Rightarrow> world \<Rightarrow> (error + unit) \<times> world" where
  "save_metadata metadata_file image_data w =
     (case open_w metadata_file w of
        (Inl e, w1) \<Rightarrow> (Inl e, w1)
      | (Inr f, w1) \<Rightarrow> f_write f (json_dumps_indent4 image_data) w1)"

text \<open>Lines 76 to 92: the download of an image that is not there yet.\<close>

definition fetch_and_save ::
  "downloader \<Rightarrow> string \<Rightarrow> json \<Rightarrow> string \<Rightarrow> string \<Rightarrow> world \<Rightarrow> (error + string) \<times> world" where
  "fetch_and_save self image_url image_data date_str file_path w =
     (case requests_get image_url w of
        (Inl e, w1) \<Rightarrow> (Inl e, w1)
      | (Inr r, w1) \<Rightarrow>
          (case raise_for_status r of Inl e \<Rightarrow> (Inl e, w1) | Inr _ \<Rightarrow>
           case save_image file_path r w1 of
             (Inl e, w2) \<Rightarrow> (Inl e, w2)
           | (Inr _, w2) \<Rightarrow>
               (let w3 = logger (Info_Successfully_downloaded file_path) w2;
                    metadata_file = os_path_join (save_dir self) (date_str @ ''_metadata.json'')
                in case save_metadata metadata_file image_data w3 of
                     (Inl e, w4) \<Rightarrow> (Inl e, w4)
                   | (Inr _, w4) \<Rightarrow> (Inr file_path, w4))))"

text \<open>\<open>download_image\<close>: the body of the \<open>try\<close> (lines 62 to 92), then the handler.\<close>

definition download_image_try :: "downloader \<Rightarrow> world \<Rightarrow> (error + string) \<times> world" where
  "download_image_try self w =
     (case get_image_url self w of
        (Inl e, w1) \<Rightarrow> (Inl e, w1)
      | (Inr (image_url, image_data), w1) \<Rightarrow>
          (let date_str = strftime_Ymd (today w1) in
           case image_filename date_str image_data of
             Inl e \<Rightarrow> (Inl e, w1)
           | Inr filename \<Rightarrow>
               (let file_path = os_path_join (save_dir self) filename in
                if os_path_exists w1 file_path
                then (Inr file_path, logger (Info_Image_already_exists file_path) w1)
                else fetch_and_save self image_url image_data date_str file_path w1)))"

definition download_image :: "downloader \<Rightarrow> world \<Rightarrow> (error + string) \<times> world" where
  "download_image self w =
     (case download_image_try self w of
        (Inl e, w') \<Rightarrow> (Inl e, logger (Error_downloading_image e) w')
      | (Inr p, w') \<Rightarrow> (Inr p, w'))"

subsection \<open>main\<close>

definition main_try :: "world \<Rightarrow> (error + unit) \<times> world" where
  "main_try w =
     (case init ''bing_images'' w of
        (Inl e, w1) \<Rightarrow> (Inl e, w1)
      | (Inr downloader, w1) \<Rightarrow>
          (case download_image downloader w1 of
             (Inl e, w2) \<Rightarrow> (Inl e, w2)
           | (Inr image_path, w2) \<Rightarrow>
               (Inr (), print (Image_downloaded_successfully_to image_path) w2)))"

definition main :: "world \<Rightarrow> (error + unit) \<times> world" where
  "main w =
     (case main_try w of
        (Inl e, w') \<Rightarrow> (Inr (), print (Error_line e) w')
      | (Inr u, w') \<Rightarrow> (Inr u, w'))"

text \<open>
  The exit status of the process: an exception that leaves \<open>main\<close> ends the interpreter
  with status 1, a return from \<open>main\<close> with status 0.
\<close>

definition exit_status :: "world \<Rightarrow> nat" where
  "exit_status w = (case fst (main w) of Inl _ \<Rightarrow> 1 | Inr _ \<Rightarrow> 0)"

subsection \<open>Concrete inputs\<close>

definition date_2024_01_15 :: date where
  "date_2024_01_15 = \<lparr>year = 2024, month = 1, day = 15\<rparr>"

definition same_env :: "world \<Rightarrow> world \<Rightarrow> bool" where
  "same_env w w' = (today w' = today w \<and> http w' = http w \<and> denied w' = denied w \<and> stdout w' = stdout w)"

definition downloader0 :: downloader where
  "downloader0 = \<lparr>save_dir = ''bing_images'',
      bing_api_url = ''https://www.bing.com/HPImageArchive.aspx?format=js&idx=0&n=1'',
      bing_base_url = ''https://www.bing.com''\<rparr>"

definition offline_world :: world where
  "offline_world = \<lparr>fs = (\<lambda>l. None), denied = (\<lambda>l. False), disk_free = 1000000,
      today = date_2024_01_15, http = (\<lambda>u. Refused), sent = [], log = [], stdout = []\<rparr>"

definition offline_world_1 :: world where
  "offline_world_1 = offline_world\<lparr>fs := (\<lambda>l. None)([''bing_images''] \<mapsto> Dir), log := [Info_Created_directory ''bing_images'']\<rparr>"

definition empty_images_response :: response where
  "empty_images_response =
     \<lparr>status_code = 200, json_body = Some (JObj [(''images'', JArr [])]), chunks = [], broken = False\<rparr>"

definition empty_images_world :: world where
  "empty_images_world = offline_world_1\<lparr>http := (\<lambda>u. Response empty_images_response)\<rparr>"

definition metadata0 :: json where
  "metadata0 = JObj [(''url'', JStr ''/th?id=OHR.Mountain''), (''title'', JStr ''Mountain View'')]"

definition api_response0 :: response where
  "api_response0 =
     \<lparr>status_code = 200, json_body = Some (JObj [(''images'', JArr [metadata0])]),
      chunks = [], broken = False\<rparr>"

definition image_response0 :: response where
  "image_response0 =
     \<lparr>status_code = 200, json_body = None, chunks = [''JFIF'', [], ''image''], broken = False\<rparr>"

definition bing_server :: "response \<Rightarrow> response \<Rightarrow> string \<Rightarrow> http_outcome" where
  "bing_server ra ri u =
     (if u = ''https://www.bing.com/HPImageArchive.aspx?format=js&idx=0&n=1'' then Response ra
      else if u = ''https://www.bing.com/th?id=OHR.Mountain'' then Response ri
      else Refused)"

definition online_world :: world where
  "online_world = offline_world_1\<lparr>http := bing_server api_response0 image_response0\<rparr>"

definition cached_world :: world where
  "cached_world = online_world\<lparr>fs := (fs online_world)
      ([''bing_images'', ''20240115_Mountain_View.jpg''] \<mapsto> File ''old'')\<rparr>"

definition garbage_500 :: response where
  "garbage_500 = \<lparr>status_code = 500, json_body = None, chunks = [''<html>''], broken = False\<rparr>"

definition world_500 :: world where
  "world_500 = offline_world_1\<lparr>http := (\<lambda>u. Response garbage_500)\<rparr>"





definition world_metadata_dir :: world where
  "world_metadata_dir = online_world\<lparr>fs := (fs online_world)
      ([''bing_images'', ''20240115_metadata.json''] \<mapsto> Dir)\<rparr>"

section \<open>Properties\<close>

subsection \<open>Strings, digits and the date\<close>

lemma str_replace_map: "str_replace old new s = map (\<lambda>c. if c = old then new else c) s"
  by (induction s) auto

lemma of_char_digit_char: "n < 10 \<Longrightarrow> (of_char (digit_char n) :: nat) = 48 + n"
  by (simp add: digit_char_def)

lemma digit_char_neq: "n < 10 \<Longrightarrow> (of_char c :: nat) < 48 \<Longrightarrow> digit_char n \<noteq> c"
  using of_char_digit_char[of n] by auto

lemma digit_char_not_sep: "n < 10 \<Longrightarrow> digit_char n \<noteq> CHR ''/'' \<and> digit_char n \<noteq> CHR ''.''"
  by (simp add: digit_char_neq)

lemma is_digit_digit_char: "n < 10 \<Longrightarrow> is_digit (digit_char n)"
  by (simp add: is_digit_def of_char_digit_char)

lemma digits_all: "\<forall>c \<in> set (digits n). is_digit c"
proof (induction n rule: digits.induct)
  case (1 n)
  show ?case
  proof (cases "n < 10")
    case True
    then show ?thesis by (simp add: digits.simps [of n] is_digit_digit_char)
  next
    case False
    then show ?thesis using 1 by (simp add: digits.simps [of n] is_digit_digit_char)
  qed
qed

lemma digits_nonempty: "digits n \<noteq> []"
  by (subst digits.simps) simp

lemma zfill_all: "\<forall>c \<in> set (zfill k (digits n)). is_digit c"
  using digits_all [of n] by (auto simp: zfill_def is_digit_def)

lemma strftime_all: "\<forall>c \<in> set (strftime_Ymd d). is_digit c"
  using zfill_all by (auto simp: strftime_Ymd_def)

lemma strftime_nonempty: "strftime_Ymd d \<noteq> []"
  by (simp add: strftime_Ymd_def zfill_def digits_nonempty)

lemma strftime_example: "strftime_Ymd date_2024_01_15 = ''20240115''"
  by code_simp

lemma digits_lt10: "n < 10 \<Longrightarrow> digits n = [digit_char n]"
  by (subst digits.simps) simp

lemma digits_ge10: "\<not> n < 10 \<Longrightarrow> digits n = digits (n div 10) @ [digit_char (n mod 10)]"
  by (subst digits.simps) simp

lemma digit_char_0: "digit_char 0 = CHR ''0''"
  by code_simp

lemma zfill_2: "n < 100 \<Longrightarrow> zfill 2 (digits n) = [digit_char (n div 10), digit_char (n mod 10)]"
proof (cases "n < 10")
  case True
  then show ?thesis by (simp add: zfill_def digits_lt10 digit_char_0)
next
  case False
  assume "n < 100"
  then have "n div 10 < 10" by simp
  with False show ?thesis by (simp add: zfill_def digits_ge10 digits_lt10)
qed

lemma digits_3: "n < 1000 \<Longrightarrow> \<not> n < 100 \<Longrightarrow>
    digits n = [digit_char (n div 100), digit_char (n div 10 mod 10), digit_char (n mod 10)]"
proof -
  assume a: "n < 1000" "\<not> n < 100"
  then have b: "\<not> n < 10" "\<not> n div 10 < 10" "n div 10 div 10 < 10" by auto
  have "n div 10 div 10 = n div 100" by (simp add: div_mult2_eq)
  with b show ?thesis by (simp add: digits_ge10 digits_lt10)
qed

lemma zfill_4: "n < 10000 \<Longrightarrow> zfill 4 (digits n) =
    [digit_char (n div 1000), digit_char (n div 100 mod 10), digit_char (n div 10 mod 10), digit_char (n mod 10)]"
proof -
  assume a: "n < 10000"
  consider "n < 10" | "\<not> n < 10" "n < 100" | "\<not> n < 100" "n < 1000" | "\<not> n < 1000" by linarith
  then show ?thesis
  proof cases
    case 1
    then show ?thesis by (simp add: zfill_def digits_lt10 digit_char_0 numeral_3_eq_3)
  next
    case 2
    then have "n div 10 < 10" by simp
    with 2 show ?thesis by (simp add: zfill_def digits_ge10 digits_lt10 digit_char_0 numeral_2_eq_2)
  next
    case 3
    then show ?thesis by (simp add: zfill_def digits_3 digit_char_0)
  next
    case 4
    with a have b: "\<not> n < 10" "n div 10 < 1000" "\<not> n div 10 < 100" by auto
    have c: "n div 10 div 100 = n div 1000" "n div 10 div 10 = n div 100" by (simp_all add: div_mult2_eq)
    from b c show ?thesis by (simp add: zfill_def digits_ge10 [of n] digits_3)
  qed
qed

lemma strftime_YYYYMMDD:
  "year d < 10000 \<Longrightarrow> month d < 100 \<Longrightarrow> day d < 100 \<Longrightarrow>
   strftime_Ymd d =
     [digit_char (year d div 1000), digit_char (year d div 100 mod 10),
      digit_char (year d div 10 mod 10), digit_char (year d mod 10),
      digit_char (month d div 10), digit_char (month d mod 10),
      digit_char (day d div 10), digit_char (day d mod 10)]"
  by (simp add: strftime_Ymd_def zfill_4 zfill_2)

lemma filename_example:
  "image_filename (strftime_Ymd date_2024_01_15)
        (JObj [(''url'', JStr ''/th?id=OHR.Mountain''), (''title'', JStr ''Mountain View'')]) =
      Inr ''20240115_Mountain_View.jpg''"
  by code_simp

subsection \<open>The environment is never changed\<close>

lemma same_env_refl: "same_env w w"
  by (simp add: same_env_def)

lemma same_env_trans: "same_env w w1 \<Longrightarrow> same_env w1 w2 \<Longrightarrow> same_env w w2"
  by (simp add: same_env_def)

lemma same_env_logger: "same_env w (logger e w)"
  by (simp add: same_env_def logger_def)

lemma mkdir_at_env: "mkdir_at l w = (r, w') \<Longrightarrow> same_env w w'"
  by (auto simp: mkdir_at_def same_env_def split: if_splits option.splits node.splits)

lemma makedirs_from_env: "makedirs_from pre ns w = (r, w') \<Longrightarrow> same_env w w'"
proof (induction pre ns w arbitrary: r w' rule: makedirs_from.induct)
  case (1 pre w)
  then show ?case by (simp add: same_env_def)
next
  case (2 pre n w)
  then show ?case by (simp add: mkdir_at_env)
next
  case (3 pre n v va w)
  show ?case
  proof (cases "node_at w (pre @ [n]) \<noteq> None")
    case True
    with 3 show ?thesis by simp
  next
    case False
    obtain r1 w1 where m: "mkdir_at (pre @ [n]) w = (r1, w1)" by (cases "mkdir_at (pre @ [n]) w")
    then have e1: "same_env w w1" by (rule mkdir_at_env)
    show ?thesis
    proof (cases r1)
      case (Inl e)
      with False m 3(3) have "w' = w1" by simp
      with e1 show ?thesis by simp
    next
      case (Inr u)
      with False m 3(3) have "makedirs_from (pre @ [n]) (v # va) w1 = (r, w')" by simp
      with 3(2) [OF False m [symmetric] Inr] have "same_env w1 w'" by simp
      with e1 show ?thesis by (rule same_env_trans)
    qed
  qed
qed

lemma os_makedirs_env: "os_makedirs p w = (r, w') \<Longrightarrow> same_env w w'"
  by (auto simp: os_makedirs_def same_env_refl makedirs_from_env split: if_splits)

lemma init_env: "init dir w = (r, w') \<Longrightarrow> same_env w w'"
  by (auto simp: init_def Let_def same_env_refl split: if_splits prod.splits sum.splits
      dest!: os_makedirs_env intro: same_env_trans same_env_logger)

lemma requests_get_world: "snd (requests_get url w) = w\<lparr>sent := sent w @ [url]\<rparr>"
  by (simp add: requests_get_def Let_def split: http_outcome.splits)

lemma requests_get_env: "requests_get url w = (r, w') \<Longrightarrow> same_env w w'"
  using requests_get_world [of url w] by (simp add: same_env_def)

lemma get_image_url_try_world:
  "snd (get_image_url_try self w) = w\<lparr>sent := sent w @ [bing_api_url self]\<rparr>"
proof -
  obtain r w1 where g: "requests_get (bing_api_url self) w = (r, w1)"
    by (cases "requests_get (bing_api_url self) w")
  with requests_get_world [of "bing_api_url self" w]
  have w1: "w1 = w\<lparr>sent := sent w @ [bing_api_url self]\<rparr>" by simp
  show ?thesis
    by (simp add: get_image_url_try_def g w1 split: sum.splits)
qed

lemma get_image_url_world:
  "get_image_url self w = (r, w') \<Longrightarrow>
   fs w' = fs w \<and> disk_free w' = disk_free w \<and> sent w' = sent w @ [bing_api_url self]
   \<and> same_env w w'"
  using get_image_url_try_world [of self w]
  by (cases "get_image_url_try self w")
     (auto simp: get_image_url_def logger_def same_env_def split: sum.splits if_splits)

lemma open_w_env: "open_w p w = (r, w') \<Longrightarrow> same_env w w'"
  by (auto simp: open_w_def Let_def same_env_def split: if_splits option.splits node.splits)

lemma f_write_env: "f_write l data w = (r, w') \<Longrightarrow> same_env w w'"
  by (auto simp: f_write_def same_env_def split: if_splits)

lemma write_chunks_env: "write_chunks f cs w = (r, w') \<Longrightarrow> same_env w w'"
proof (induction cs arbitrary: w)
  case Nil
  then show ?case by (simp add: same_env_refl)
next
  case (Cons c cs)
  show ?case
  proof (cases "c = []")
    case True
    with Cons show ?thesis by simp
  next
    case False
    obtain r1 w1 where m: "f_write f c w = (r1, w1)" by (cases "f_write f c w")
    then have e1: "same_env w w1" by (rule f_write_env)
    show ?thesis
    proof (cases r1)
      case (Inl e)
      with False m Cons.prems have "w' = w1" by simp
      with e1 show ?thesis by simp
    next
      case (Inr u)
      with False m Cons.prems have "write_chunks f cs w1 = (r, w')" by simp
      then have "same_env w1 w'" by (rule Cons.IH)
      with e1 show ?thesis by (rule same_env_trans)
    qed
  qed
qed

lemma save_image_env: "save_image p resp w = (r, w') \<Longrightarrow> same_env w w'"
  by (auto simp: save_image_def split: prod.splits sum.splits if_splits
      dest!: open_w_env write_chunks_env intro: same_env_trans)

lemma save_metadata_env: "save_metadata p v w = (r, w') \<Longrightarrow> same_env w w'"
  by (auto simp: save_metadata_def split: prod.splits sum.splits
      dest!: open_w_env f_write_env intro: same_env_trans)

lemma fetch_and_save_env:
  "fetch_and_save self url v ds p w = (r, w') \<Longrightarrow> same_env w w'"
  by (auto simp: fetch_and_save_def Let_def split: prod.splits sum.splits
      dest!: requests_get_env save_image_env save_metadata_env)
     (simp_all add: same_env_def logger_def)

lemma download_image_try_env: "download_image_try self w = (r, w') \<Longrightarrow> same_env w w'"
  by (auto simp: download_image_try_def Let_def split: prod.splits sum.splits if_splits
      dest!: get_image_url_world fetch_and_save_env)
     (simp_all add: same_env_def logger_def)

lemma download_image_env: "download_image self w = (r, w') \<Longrightarrow> same_env w w'"
  by (auto simp: download_image_def split: prod.splits sum.splits
      dest!: download_image_try_env)
     (simp_all add: same_env_def logger_def)

lemma resolve_bing_images: "resolve ''bing_images'' = [''bing_images'']"
  by code_simp

lemma names_bing_images: "names ''bing_images'' = [''bing_images'']"
  by code_simp

lemma init_offline:
  "init ''bing_images'' offline_world =
     (Inr downloader0,
      offline_world\<lparr>fs := (\<lambda>l. None)([''bing_images''] \<mapsto> Dir), log := [Info_Created_directory ''bing_images'']\<rparr>)"
  by (simp add: init_def os_path_exists_def node_at_def os_makedirs_def resolve_bing_images
      names_bing_images mkdir_at_def offline_world_def downloader0_def logger_def)

subsection \<open>The entry point\<close>

text \<open>
  Claim C6. Whatever happens, \<open>main\<close> returns and the process ends with status 0. An
  error of the constructor or of \<open>download_image\<close> is caught by \<open>main\<close> and printed
  to standard output as one line; on success the one line printed holds the path.
\<close>

theorem main_exit_status:
  "exit_status w = 0
   \<and> (fst (init ''bing_images'' w) = Inl e \<longrightarrow>
        stdout (snd (main w)) = stdout w @ [Error_line e])
   \<and> (init ''bing_images'' w = (Inr d, w1) \<and> fst (download_image d w1) = Inl e \<longrightarrow>
        stdout (snd (main w)) = stdout w @ [Error_line e])
   \<and> (init ''bing_images'' w = (Inr d, w1) \<and> fst (download_image d w1) = Inr p \<longrightarrow>
        stdout (snd (main w)) = stdout w @ [Image_downloaded_successfully_to p])"
proof (intro conjI impI)
  show "exit_status w = 0"
    by (simp add: exit_status_def main_def split: prod.splits sum.splits)
next
  assume a: "fst (init ''bing_images'' w) = Inl e"
  obtain r w1 where i: "init ''bing_images'' w = (r, w1)" by (cases "init ''bing_images'' w")
  with a have r: "r = Inl e" by simp
  from i have "stdout w1 = stdout w" by (auto dest: init_env simp: same_env_def)
  with i r show "stdout (snd (main w)) = stdout w @ [Error_line e]"
    by (simp add: main_def main_try_def print_def)
next
  assume a: "init ''bing_images'' w = (Inr d, w1) \<and> fst (download_image d w1) = Inl e"
  obtain r w2 where dl: "download_image d w1 = (r, w2)" by (cases "download_image d w1")
  with a have r: "r = Inl e" by simp
  from a have "stdout w1 = stdout w" by (auto dest: init_env simp: same_env_def)
  moreover from dl have "stdout w2 = stdout w1" by (auto dest: download_image_env simp: same_env_def)
  ultimately show "stdout (snd (main w)) = stdout w @ [Error_line e]"
    using a dl r by (simp add: main_def main_try_def print_def)
next
  assume a: "init ''bing_images'' w = (Inr d, w1) \<and> fst (download_image d w1) = Inr p"
  obtain r w2 where dl: "download_image d w1 = (r, w2)" by (cases "download_image d w1")
  with a have r: "r = Inr p" by simp
  from a have "stdout w1 = stdout w" by (auto dest: init_env simp: same_env_def)
  moreover from dl have "stdout w2 = stdout w1" by (auto dest: download_image_env simp: same_env_def)
  ultimately show "stdout (snd (main w)) = stdout w @ [Image_downloaded_successfully_to p]"
    using a dl r by (simp add: main_def main_try_def print_def)
qed

lemma download_offline: "fst (download_image downloader0 offline_world_1) = Inl ConnectionError"
  by (simp add: download_image_def download_image_try_def get_image_url_def get_image_url_try_def
      requests_get_def offline_world_1_def offline_world_def downloader0_def)

text \<open>The theorem in a world with no network: the line printed is the error.\<close>

theorem main_exit_status_witness:
  "init ''bing_images'' offline_world = (Inr downloader0, offline_world_1)
   \<and> fst (download_image downloader0 offline_world_1) = Inl ConnectionError
   \<and> exit_status offline_world = 0
   \<and> stdout (snd (main offline_world)) = stdout offline_world @ [Error_line ConnectionError]"
  using main_exit_status [of offline_world ConnectionError downloader0 offline_world_1]
    init_offline download_offline
  by (simp add: offline_world_1_def)

subsection \<open>Paths\<close>

lemma split_slash_nonempty: "split_slash s \<noteq> []"
  by (cases s) (auto split: list.splits)

lemma split_slash_Cons:
  "split_slash (c # cs) =
     (if c = CHR ''/'' then [] # split_slash cs
      else (c # hd (split_slash cs)) # tl (split_slash cs))"
  using split_slash_nonempty [of cs] by (cases "split_slash cs") auto

declare split_slash.simps(2) [simp del]
declare split_slash_Cons [simp]

lemma split_slash_no_sep: "CHR ''/'' \<notin> set s \<Longrightarrow> split_slash s = [s]"
  by (induction s) auto

lemma split_slash_append_sep: "split_slash (a @ CHR ''/'' # b) = split_slash a @ split_slash b"
proof (induction a)
  case Nil
  show ?case by simp
next
  case (Cons c a)
  have "split_slash a \<noteq> []" by (rule split_slash_nonempty)
  with Cons show ?case by simp
qed

lemma names_append_sep: "names (a @ CHR ''/'' # b) = names a @ names b"
  by (simp add: names_def split_slash_append_sep)

lemma names_empty: "names [] = []"
  by (simp add: names_def)

lemma names_no_sep: "CHR ''/'' \<notin> set s \<Longrightarrow> s \<noteq> [] \<Longrightarrow> s \<noteq> ''.'' \<Longrightarrow> names s = [s]"
  by (simp add: names_def split_slash_no_sep)

lemma split_slash_append_no_sep:
  "CHR ''/'' \<notin> set y \<Longrightarrow> split_slash (x @ y) = butlast (split_slash x) @ [last (split_slash x) @ y]"
proof (induction x)
  case Nil
  then show ?case by (simp add: split_slash_no_sep)
next
  case (Cons c x)
  have ne: "split_slash x \<noteq> []" by (rule split_slash_nonempty)
  show ?case
  proof (cases "c = CHR ''/''")
    case True
    with Cons ne show ?thesis by simp
  next
    case False
    obtain h t where F: "split_slash x = h # t" using ne by (cases "split_slash x") auto
    show ?thesis
    proof (cases t)
      case Nil
      with False Cons F show ?thesis by simp
    next
      case (Cons t1 ts)
      with False Cons.IH [OF Cons.prems] F show ?thesis by simp
    qed
  qed
qed

lemma resolve_join:
  assumes "f \<noteq> []" and "hd f \<noteq> CHR ''/''"
  shows "resolve (os_path_join s f) = resolve s @ names f"
proof (cases "s = []")
  case True
  with assms show ?thesis by (simp add: os_path_join_def resolve_def names_empty)
next
  case False
  show ?thesis
  proof (cases "last s = CHR ''/''")
    case True
    with False obtain s' where s: "s = s' @ [CHR ''/'']"
      by (metis append_butlast_last_id)
    have "names (s @ f) = names s' @ names f"
      using names_append_sep [of s' f] by (simp add: s)
    moreover have "names s = names s'"
      using names_append_sep [of s' "[]"] by (simp add: s names_empty)
    moreover have "hd (s @ f) = hd s" using False by simp
    ultimately show ?thesis using assms False True
      by (simp add: os_path_join_def resolve_def)
  next
    case l: False
    have "names (s @ CHR ''/'' # f) = names s @ names f" by (rule names_append_sep)
    moreover have "hd (s @ CHR ''/'' # f) = hd s" using False by simp
    ultimately show ?thesis using assms False l
      by (simp add: os_path_join_def resolve_def)
  qed
qed

lemma names_jpg:
  "names (x @ ''.jpg'') =
     filter (\<lambda>f. f \<noteq> [] \<and> f \<noteq> ''.'') (butlast (split_slash x)) @ [last (split_slash x) @ ''.jpg'']"
proof -
  have "split_slash (x @ ''.jpg'') = butlast (split_slash x) @ [last (split_slash x) @ ''.jpg'']"
    by (rule split_slash_append_no_sep) simp
  then show ?thesis by (simp add: names_def)
qed

lemma names_hd: "s \<noteq> [] \<Longrightarrow> hd s \<noteq> CHR ''/'' \<Longrightarrow> hd s \<noteq> CHR ''.'' \<Longrightarrow> names s \<noteq> []"
  by (cases s) (auto simp: names_def)

lemma is_digit_not_sep: "is_digit c \<Longrightarrow> c \<noteq> CHR ''/'' \<and> c \<noteq> CHR ''.''"
  by (auto simp: is_digit_def)

lemma strftime_hd: "is_digit (hd (strftime_Ymd d))"
  using strftime_all [of d] strftime_nonempty [of d] by (cases "strftime_Ymd d") auto

lemma strftime_no_sep: "CHR ''/'' \<notin> set (strftime_Ymd d)"
  using strftime_all [of d] is_digit_not_sep by blast

lemma filename_hd:
  "strftime_Ymd d @ rest \<noteq> [] \<and> hd (strftime_Ymd d @ rest) \<noteq> CHR ''/''
   \<and> hd (strftime_Ymd d @ rest) \<noteq> CHR ''.''"
  using strftime_hd [of d] strftime_nonempty [of d] is_digit_not_sep by auto

lemma names_metadata:
  "names (strftime_Ymd d @ ''_metadata.json'') = [strftime_Ymd d @ ''_metadata.json'']"
  by (rule names_no_sep) (use strftime_no_sep in auto)

lemma image_not_metadata:
  "resolve (os_path_join s (strftime_Ymd d @ ''_'' @ t @ ''.jpg''))
     \<noteq> resolve (os_path_join s (strftime_Ymd d @ ''_metadata.json''))"
proof -
  let ?x = "strftime_Ymd d @ ''_'' @ t"
  have a: "resolve (os_path_join s (?x @ ''.jpg'')) = resolve s @ names (?x @ ''.jpg'')"
    using filename_hd [of d "''_'' @ t @ ''.jpg''"] by (intro resolve_join) auto
  have b: "resolve (os_path_join s (strftime_Ymd d @ ''_metadata.json''))
             = resolve s @ [strftime_Ymd d @ ''_metadata.json'']"
    using filename_hd [of d "''_metadata.json''"] resolve_join [of "strftime_Ymd d @ ''_metadata.json''" s]
    by (simp add: names_metadata)
  define N where "N = names (?x @ ''.jpg'')"
  have "last N = last (split_slash ?x) @ ''.jpg''"
    unfolding N_def using names_jpg [of ?x] by simp
  then have g: "last (last N) = CHR ''g''" by simp
  have "N \<noteq> [strftime_Ymd d @ ''_metadata.json'']"
  proof
    assume "N = [strftime_Ymd d @ ''_metadata.json'']"
    then have "last (last N) = CHR ''n''" by simp
    with g show False by simp
  qed
  with a b show ?thesis by (simp add: N_def)
qed

lemma str_replace_length: "length (str_replace old new s) = length s"
  by (simp add: str_replace_map)

lemma str_replace_nth: "i < length s \<Longrightarrow> s ! i \<noteq> old \<Longrightarrow> str_replace old new s ! i = s ! i"
  by (simp add: str_replace_map)

lemma str_replace_sep: "CHR ''/'' \<in> set (str_replace CHR '' '' CHR ''_'' s) \<longleftrightarrow> CHR ''/'' \<in> set s"
  by (induction s) auto

lemma names_filename_sep:
  assumes "CHR ''/'' \<in> set t"
  shows "2 \<le> length (names (strftime_Ymd d @ ''_'' @ t @ ''.jpg''))"
proof -
  from assms obtain a b where t: "t = a @ CHR ''/'' # b" by (meson split_list)
  have "strftime_Ymd d @ ''_'' @ t @ ''.jpg'' = (strftime_Ymd d @ ''_'' @ a) @ CHR ''/'' # (b @ ''.jpg'')"
    by (simp add: t)
  then have n: "names (strftime_Ymd d @ ''_'' @ t @ ''.jpg'')
      = names (strftime_Ymd d @ ''_'' @ a) @ names (b @ ''.jpg'')"
    by (simp only: names_append_sep)
  have "names (strftime_Ymd d @ ''_'' @ a) \<noteq> []"
    using filename_hd [of d "''_'' @ a"] by (intro names_hd) auto
  moreover have "names (b @ ''.jpg'') \<noteq> []" by (simp add: names_jpg)
  ultimately show ?thesis
    unfolding n by (cases "names (strftime_Ymd d @ ''_'' @ a)"; cases "names (b @ ''.jpg'')") auto
qed

lemma names_filename_flat:
  assumes "CHR ''/'' \<notin> set t"
  shows "names (strftime_Ymd d @ ''_'' @ t @ ''.jpg'') = [strftime_Ymd d @ ''_'' @ t @ ''.jpg'']"
  by (rule names_no_sep) (use assms strftime_no_sep in auto)

lemma example_subdirectory:
  "resolve (os_path_join ''bing_images'' ''20240115_a/b.jpg'') = [''bing_images'', ''20240115_a'', ''b.jpg'']"
  by code_simp

lemma example_outside:
  "resolve (os_path_join ''bing_images'' ''20240115_/../../x.jpg'')
     = [''bing_images'', ''20240115_'', ''..'', ''..'', ''x.jpg'']"
  by code_simp

declare split_slash_Cons [simp del]
declare split_slash.simps(2) [simp]

subsection \<open>What the title does to the path\<close>

text \<open>
  Claim C10. Only the space is replaced: the title keeps its length and every other
  character, the separator \<open>/\<close> among them, stays where it is. The path of the image
  file names the location made of the names of the save directory followed by the
  names in the file name. For a title without \<open>/\<close> this is one name, a file in the save
  directory. For a title with a \<open>/\<close> there are two names or more: the parent of the
  file is not the save directory. The title \<open>a/b\<close> gives a file in the subdirectory
  \<open>20240115_a\<close>; the title \<open>/../../x\<close> gives a path that climbs two levels, above
  the save directory.
\<close>

theorem title_separators_kept:
  "length (str_replace CHR '' '' CHR ''_'' t) = length t
   \<and> (\<forall>i. i < length t \<and> t ! i \<noteq> CHR '' '' \<longrightarrow> str_replace CHR '' '' CHR ''_'' t ! i = t ! i)
   \<and> (map_of kvs ''title'' = Some (JStr t) \<longrightarrow>
        (\<exists>fn. image_filename (strftime_Ymd d) (JObj kvs) = Inr fn
           \<and> resolve (os_path_join s fn) = resolve s @ names fn
           \<and> (CHR ''/'' \<in> set t \<longrightarrow>
                 2 \<le> length (names fn) \<and> butlast (resolve (os_path_join s fn)) \<noteq> resolve s)
           \<and> (CHR ''/'' \<notin> set t \<longrightarrow> names fn = [fn])))
   \<and> image_filename (strftime_Ymd date_2024_01_15) (JObj [(''title'', JStr ''a/b'')]) = Inr ''20240115_a/b.jpg''
   \<and> resolve (os_path_join ''bing_images'' ''20240115_a/b.jpg'') = [''bing_images'', ''20240115_a'', ''b.jpg'']
   \<and> image_filename (strftime_Ymd date_2024_01_15) (JObj [(''title'', JStr ''/../../x'')]) = Inr ''20240115_/../../x.jpg''
   \<and> resolve (os_path_join ''bing_images'' ''20240115_/../../x.jpg'')
        = [''bing_images'', ''20240115_'', ''..'', ''..'', ''x.jpg'']"
proof (intro conjI allI impI)
  show "length (str_replace CHR '' '' CHR ''_'' t) = length t" by (rule str_replace_length)
next
  fix i assume "i < length t \<and> t ! i \<noteq> CHR '' ''"
  then show "str_replace CHR '' '' CHR ''_'' t ! i = t ! i" by (simp add: str_replace_nth)
next
  assume k: "map_of kvs ''title'' = Some (JStr t)"
  let ?t = "str_replace CHR '' '' CHR ''_'' t"
  let ?fn = "strftime_Ymd d @ ''_'' @ ?t @ ''.jpg''"
  have f: "image_filename (strftime_Ymd d) (JObj kvs) = Inr ?fn"
    using k by (simp add: image_filename_def get_title_replaced_def)
  have r: "resolve (os_path_join s ?fn) = resolve s @ names ?fn"
    using filename_hd [of d "''_'' @ ?t @ ''.jpg''"] by (intro resolve_join) auto
  have a: "CHR ''/'' \<in> set t \<longrightarrow> 2 \<le> length (names ?fn) \<and> butlast (resolve (os_path_join s ?fn)) \<noteq> resolve s"
  proof
    assume "CHR ''/'' \<in> set t"
    then have "CHR ''/'' \<in> set ?t" by (simp add: str_replace_sep)
    then have l: "2 \<le> length (names ?fn)" by (rule names_filename_sep)
    then have "length (butlast (resolve s @ names ?fn)) \<noteq> length (resolve s)" by simp
    then have "butlast (resolve s @ names ?fn) \<noteq> resolve s" by metis
    with l r show "2 \<le> length (names ?fn) \<and> butlast (resolve (os_path_join s ?fn)) \<noteq> resolve s"
      by simp
  qed
  have b: "CHR ''/'' \<notin> set t \<longrightarrow> names ?fn = [?fn]"
  proof
    assume "CHR ''/'' \<notin> set t"
    then have "CHR ''/'' \<notin> set ?t" by (simp add: str_replace_sep)
    then show "names ?fn = [?fn]" by (rule names_filename_flat)
  qed
  from f r a b show "\<exists>fn. image_filename (strftime_Ymd d) (JObj kvs) = Inr fn
           \<and> resolve (os_path_join s fn) = resolve s @ names fn
           \<and> (CHR ''/'' \<in> set t \<longrightarrow>
                 2 \<le> length (names fn) \<and> butlast (resolve (os_path_join s fn)) \<noteq> resolve s)
           \<and> (CHR ''/'' \<notin> set t \<longrightarrow> names fn = [fn])"
    by blast
next
  show "image_filename (strftime_Ymd date_2024_01_15) (JObj [(''title'', JStr ''a/b'')]) = Inr ''20240115_a/b.jpg''"
    by code_simp
next
  show "resolve (os_path_join ''bing_images'' ''20240115_a/b.jpg'') = [''bing_images'', ''20240115_a'', ''b.jpg'']"
    by (rule example_subdirectory)
next
  show "image_filename (strftime_Ymd date_2024_01_15) (JObj [(''title'', JStr ''/../../x'')]) = Inr ''20240115_/../../x.jpg''"
    by code_simp
next
  show "resolve (os_path_join ''bing_images'' ''20240115_/../../x.jpg'')
        = [''bing_images'', ''20240115_'', ''..'', ''..'', ''x.jpg'']"
    by (rule example_outside)
qed

text \<open>The theorem at the title \<open>a/b\<close>.\<close>

theorem title_separators_kept_witness:
  "map_of [(''title'', JStr ''a/b'')] ''title'' = Some (JStr ''a/b'')
   \<and> CHR ''/'' \<in> set ''a/b'' \<and> 1 < length ''a/b'' \<and> ''a/b'' ! 1 \<noteq> CHR '' ''
   \<and> str_replace CHR '' '' CHR ''_'' ''a/b'' ! 1 = CHR ''/''
   \<and> (\<exists>fn. image_filename (strftime_Ymd date_2024_01_15) (JObj [(''title'', JStr ''a/b'')]) = Inr fn
         \<and> 2 \<le> length (names fn)
         \<and> butlast (resolve (os_path_join ''bing_images'' fn)) \<noteq> resolve ''bing_images'')"
proof -
  note t = title_separators_kept [of "''a/b''" "[(''title'', JStr ''a/b'')]" date_2024_01_15 "''bing_images''"]
  have h1: "map_of [(''title'', JStr ''a/b'')] ''title'' = Some (JStr ''a/b'')" by simp
  have h2: "CHR ''/'' \<in> set ''a/b''" by simp
  have h3: "1 < length ''a/b'' \<and> ''a/b'' ! 1 \<noteq> CHR '' ''" by simp
  from t h3 have c1: "str_replace CHR '' '' CHR ''_'' ''a/b'' ! 1 = ''a/b'' ! 1" by blast
  from t h1 h2 have c2: "\<exists>fn. image_filename (strftime_Ymd date_2024_01_15) (JObj [(''title'', JStr ''a/b'')]) = Inr fn
         \<and> 2 \<le> length (names fn)
         \<and> butlast (resolve (os_path_join ''bing_images'' fn)) \<noteq> resolve ''bing_images''"
    by blast
  from h1 h2 h3 c1 c2 show ?thesis by simp
qed

subsection \<open>What the writes do to the file system\<close>

lemma open_w_Inr:
  "open_w p w = (Inr f, w1) \<Longrightarrow>
     f = resolve p \<and> fs w1 = (fs w)(f \<mapsto> File []) \<and> disk_free w \<le> disk_free w1
     \<and> sent w1 = sent w \<and> log w1 = log w"
  by (auto simp: open_w_def Let_def split: if_splits option.splits node.splits)

lemma open_w_Inl: "open_w p w = (Inl e, w1) \<Longrightarrow> w1 = w"
  by (auto simp: open_w_def Let_def split: if_splits option.splits node.splits)

lemma f_write_Inr:
  "f_write l data w = (Inr u, w1) \<Longrightarrow>
     fs w1 = (fs w)(l \<mapsto> File (content w l @ data)) \<and> sent w1 = sent w \<and> log w1 = log w"
  by (auto simp: f_write_def split: if_splits)

lemma f_write_other: "f_write l data w = (r, w1) \<Longrightarrow> l' \<noteq> l \<Longrightarrow> fs w1 l' = fs w l'"
  by (auto simp: f_write_def split: if_splits)

lemma f_write_sent: "f_write l data w = (r, w1) \<Longrightarrow> sent w1 = sent w \<and> log w1 = log w"
  by (auto simp: f_write_def split: if_splits)

lemma write_chunks_Inr:
  "fs w f = Some (File b) \<Longrightarrow> write_chunks f cs w = (Inr u, w1) \<Longrightarrow>
     fs w1 = (fs w)(f \<mapsto> File (b @ concat cs))"
proof (induction cs arbitrary: w b)
  case Nil
  then show ?case by auto
next
  case (Cons c cs)
  show ?case
  proof (cases "c = []")
    case True
    with Cons show ?thesis by simp
  next
    case False
    obtain r2 w2 where m: "f_write f c w = (r2, w2)" by (cases "f_write f c w")
    with False Cons.prems(2) obtain u2 where r2: "r2 = Inr u2" by (cases r2) auto
    from m r2 Cons.prems(1) have f2: "fs w2 = (fs w)(f \<mapsto> File (b @ c))"
      by (auto dest: f_write_Inr simp: content_def)
    then have "fs w2 f = Some (File (b @ c))" by simp
    moreover from False m r2 Cons.prems(2) have "write_chunks f cs w2 = (Inr u, w1)" by simp
    ultimately have "fs w1 = (fs w2)(f \<mapsto> File ((b @ c) @ concat cs))" by (rule Cons.IH)
    with f2 show ?thesis by simp
  qed
qed

lemma write_chunks_other:
  "write_chunks f cs w = (r, w1) \<Longrightarrow> l' \<noteq> f \<Longrightarrow> fs w1 l' = fs w l'"
proof (induction cs arbitrary: w)
  case Nil
  then show ?case by auto
next
  case (Cons c cs)
  show ?case
  proof (cases "c = []")
    case True
    with Cons show ?thesis by simp
  next
    case False
    obtain r2 w2 where m: "f_write f c w = (r2, w2)" by (cases "f_write f c w")
    then have o: "fs w2 l' = fs w l'" using Cons.prems(2) by (rule f_write_other)
    show ?thesis
    proof (cases r2)
      case (Inl e)
      with False m Cons.prems(1) have "w1 = w2" by simp
      with o show ?thesis by simp
    next
      case (Inr u2)
      with False m Cons.prems(1) have "write_chunks f cs w2 = (r, w1)" by simp
      then have "fs w1 l' = fs w2 l'" using Cons.prems(2) by (rule Cons.IH)
      with o show ?thesis by simp
    qed
  qed
qed

lemma write_chunks_sent: "write_chunks f cs w = (r, w1) \<Longrightarrow> sent w1 = sent w \<and> log w1 = log w"
proof (induction cs arbitrary: w)
  case Nil
  then show ?case by auto
next
  case (Cons c cs)
  show ?case
  proof (cases "c = []")
    case True
    with Cons show ?thesis by simp
  next
    case False
    obtain r2 w2 where m: "f_write f c w = (r2, w2)" by (cases "f_write f c w")
    then have o: "sent w2 = sent w \<and> log w2 = log w" by (rule f_write_sent)
    show ?thesis
    proof (cases r2)
      case (Inl e)
      with False m Cons.prems(1) have "w1 = w2" by simp
      with o show ?thesis by simp
    next
      case (Inr u2)
      with False m Cons.prems(1) have "write_chunks f cs w2 = (r, w1)" by simp
      then have "sent w1 = sent w2 \<and> log w1 = log w2" by (rule Cons.IH)
      with o show ?thesis by simp
    qed
  qed
qed

lemma save_image_Inr:
  assumes "save_image p resp w = (Inr u, w1)"
  shows "fs w1 = (fs w)(resolve p \<mapsto> File (concat (chunks resp))) \<and> sent w1 = sent w \<and> log w1 = log w"
proof -
  obtain r2 w2 where o: "open_w p w = (r2, w2)" by (cases "open_w p w")
  with assms obtain f where r2: "r2 = Inr f" by (cases r2) (auto simp: save_image_def)
  from o r2 have f: "f = resolve p" "fs w2 = (fs w)(f \<mapsto> File [])" "sent w2 = sent w" "log w2 = log w"
    by (auto dest: open_w_Inr)
  obtain r3 w3 where c: "write_chunks f (chunks resp) w2 = (r3, w3)"
    by (cases "write_chunks f (chunks resp) w2")
  with assms o r2 obtain u3 where r3: "r3 = Inr u3" and w3: "w3 = w1"
    by (cases r3) (auto simp: save_image_def split: if_splits)
  from f have "fs w2 f = Some (File [])" by simp
  from write_chunks_Inr [OF this c [unfolded r3]] have "fs w3 = (fs w2)(f \<mapsto> File (concat (chunks resp)))"
    by simp
  moreover from c have "sent w3 = sent w2 \<and> log w3 = log w2" by (rule write_chunks_sent)
  ultimately show ?thesis using f w3 by simp
qed

lemma save_image_other:
  assumes "save_image p resp w = (r, w1)" and "l' \<noteq> resolve p"
  shows "fs w1 l' = fs w l'"
proof -
  obtain r2 w2 where o: "open_w p w = (r2, w2)" by (cases "open_w p w")
  show ?thesis
  proof (cases r2)
    case (Inl e)
    with o assms(1) have "w1 = w" by (auto simp: save_image_def dest: open_w_Inl)
    then show ?thesis by simp
  next
    case (Inr f)
    with o have f: "f = resolve p" "fs w2 = (fs w)(f \<mapsto> File [])" by (auto dest: open_w_Inr)
    obtain r3 w3 where c: "write_chunks f (chunks resp) w2 = (r3, w3)"
      by (cases "write_chunks f (chunks resp) w2")
    with assms(1) o Inr have "w1 = w3" by (auto simp: save_image_def split: sum.splits if_splits)
    moreover from c assms(2) f have "fs w3 l' = fs w2 l'" by (auto dest: write_chunks_other)
    ultimately show ?thesis using f assms(2) by simp
  qed
qed

lemma save_metadata_Inr:
  assumes "save_metadata p v w = (Inr u, w1)"
  shows "fs w1 = (fs w)(resolve p \<mapsto> File (json_dumps_indent4 v)) \<and> sent w1 = sent w \<and> log w1 = log w"
proof -
  obtain r2 w2 where o: "open_w p w = (r2, w2)" by (cases "open_w p w")
  with assms obtain f where r2: "r2 = Inr f" by (cases r2) (auto simp: save_metadata_def)
  from o r2 have f: "f = resolve p" "fs w2 = (fs w)(f \<mapsto> File [])" "sent w2 = sent w" "log w2 = log w"
    by (auto dest: open_w_Inr)
  from assms o r2 have "f_write f (json_dumps_indent4 v) w2 = (Inr u, w1)"
    by (simp add: save_metadata_def)
  then have "fs w1 = (fs w2)(f \<mapsto> File (content w2 f @ json_dumps_indent4 v)) \<and> sent w1 = sent w2 \<and> log w1 = log w2"
    by (rule f_write_Inr)
  with f show ?thesis by (simp add: content_def)
qed

lemma save_metadata_other:
  assumes "save_metadata p v w = (r, w1)" and "l' \<noteq> resolve p"
  shows "fs w1 l' = fs w l'"
proof -
  obtain r2 w2 where o: "open_w p w = (r2, w2)" by (cases "open_w p w")
  show ?thesis
  proof (cases r2)
    case (Inl e)
    with o assms(1) have "w1 = w" by (auto simp: save_metadata_def dest: open_w_Inl)
    then show ?thesis by simp
  next
    case (Inr f)
    with o have f: "f = resolve p" "fs w2 = (fs w)(f \<mapsto> File [])" by (auto dest: open_w_Inr)
    from assms(1) o Inr have "f_write f (json_dumps_indent4 v) w2 = (r, w1)"
      by (simp add: save_metadata_def)
    with assms(2) f have "fs w1 l' = fs w2 l'" by (auto dest: f_write_other)
    with f assms(2) show ?thesis by simp
  qed
qed

subsection \<open>The name of the image file\<close>

lemma bing_server_api:
  "bing_server a i (bing_api_url downloader0) = Response a"
  by (simp add: bing_server_def downloader0_def)

lemma bing_server_image:
  "bing_server a i ''https://www.bing.com/th?id=OHR.Mountain'' = Response i"
  by (simp add: bing_server_def)

lemma get_image_url_ok:
  assumes "http w (bing_api_url downloader0) = Response api_response0"
  shows "get_image_url downloader0 w =
     (Inr (''https://www.bing.com/th?id=OHR.Mountain'', metadata0),
      w\<lparr>sent := sent w @ [bing_api_url downloader0]\<rparr>)"
  using assms
  by (simp add: get_image_url_def get_image_url_try_def requests_get_def raise_for_status_def
      response_json_def api_response0_def metadata0_def)
     (simp add: downloader0_def)

lemma image_filename_metadata0:
  "image_filename (strftime_Ymd date_2024_01_15) metadata0 = Inr ''20240115_Mountain_View.jpg''"
  by (simp add: image_filename_def get_title_replaced_def metadata0_def strftime_example)

lemma resolve_image_path:
  "resolve (os_path_join ''bing_images'' ''20240115_Mountain_View.jpg'')
     = [''bing_images'', ''20240115_Mountain_View.jpg'']"
  by code_simp

lemma resolve_metadata_path:
  "resolve (os_path_join ''bing_images'' ''20240115_metadata.json'')
     = [''bing_images'', ''20240115_metadata.json'']"
  by code_simp

lemma get_image_url_fst_cong:
  "http w' (bing_api_url self) = http w (bing_api_url self) \<Longrightarrow>
   fst (get_image_url self w') = fst (get_image_url self w)"
  by (simp add: get_image_url_def get_image_url_try_def requests_get_def Let_def
      split: http_outcome.splits sum.splits)

lemma download_image_fetch_error:
  assumes "fst (get_image_url self w) = Inl e"
  shows "fst (download_image self w) = Inl e
     \<and> fs (snd (download_image self w)) = fs w
     \<and> disk_free (snd (download_image self w)) = disk_free w
     \<and> sent (snd (download_image self w)) = sent w @ [bing_api_url self]"
proof -
  obtain r w1 where g: "get_image_url self w = (r, w1)" by (cases "get_image_url self w")
  with assms have r: "r = Inl e" by simp
  from g have "fs w1 = fs w \<and> disk_free w1 = disk_free w \<and> sent w1 = sent w @ [bing_api_url self]"
    by (auto dest: get_image_url_world)
  with g r show ?thesis
    by (simp add: download_image_def download_image_try_def logger_def)
qed

lemma get_image_url_malformed:
  assumes "http w (bing_api_url self) = Response r" and "raise_for_status r = Inr ()"
  shows "(json_body r = None \<longrightarrow> fst (get_image_url self w) = Inl JSONDecodeError)
    \<and> (json_body r = Some (JObj kvs) \<and> map_of kvs ''images'' = None \<longrightarrow>
          fst (get_image_url self w) = Inl (KeyError (JStr ''images'')))
    \<and> (json_body r = Some (JObj kvs) \<and> map_of kvs ''images'' = Some (JArr []) \<longrightarrow>
          fst (get_image_url self w) = Inl IndexError)
    \<and> (json_body r = Some v \<and> (\<forall>kvs. v \<noteq> JObj kvs) \<longrightarrow>
          fst (get_image_url self w) = Inl TypeError)"
  using assms
  by (cases v)
     (auto simp: get_image_url_def get_image_url_try_def requests_get_def Let_def response_json_def)

lemma os_path_exists_cong: "fs w' = fs w \<Longrightarrow> os_path_exists w' p = os_path_exists w p"
  by (simp add: os_path_exists_def node_at_def)

lemma download_image_try_fresh:
  assumes "get_image_url self w = (Inr (url, v), w1)"
    and "image_filename (strftime_Ymd (today w)) v = Inr fn"
    and "\<not> os_path_exists w (os_path_join (save_dir self) fn)"
  shows "download_image_try self w =
     fetch_and_save self url v (strftime_Ymd (today w)) (os_path_join (save_dir self) fn) w1"
proof -
  from assms(1) have "fs w1 = fs w" "today w1 = today w"
    by (auto dest: get_image_url_world simp: same_env_def)
  with assms os_path_exists_cong [of w1 w] show ?thesis
    by (simp add: download_image_try_def Let_def)
qed

lemma download_image_try_exists:
  assumes "get_image_url self w = (Inr (url, v), w1)"
    and "image_filename (strftime_Ymd (today w)) v = Inr fn"
    and "os_path_exists w (os_path_join (save_dir self) fn)"
  shows "download_image_try self w =
     (Inr (os_path_join (save_dir self) fn),
      logger (Info_Image_already_exists (os_path_join (save_dir self) fn)) w1)"
proof -
  from assms(1) have "fs w1 = fs w" "today w1 = today w"
    by (auto dest: get_image_url_world simp: same_env_def)
  with assms os_path_exists_cong [of w1 w] show ?thesis
    by (simp add: download_image_try_def Let_def)
qed

lemma get_image_url_status:
  assumes "http w (bing_api_url self) = Response r"
    and "400 \<le> status_code r" and "status_code r < 600"
  shows "fst (get_image_url self w) = Inl (HTTPError (status_code r))"
  using assms
  by (simp add: get_image_url_def get_image_url_try_def requests_get_def raise_for_status_def)


lemma fetch_and_save_path: "fetch_and_save self url v ds p w = (Inr p', w') \<Longrightarrow> p' = p"
  by (auto simp: fetch_and_save_def Let_def split: prod.splits sum.splits)

lemma download_image_path:
  assumes "get_image_url self w = (Inr (url, v), w1)"
    and "image_filename (strftime_Ymd (today w)) v = Inr fn"
    and "fst (download_image self w) = Inr p"
  shows "p = os_path_join (save_dir self) fn"
proof (cases "os_path_exists w (os_path_join (save_dir self) fn)")
  case True
  from download_image_try_exists [OF assms(1,2) True] assms(3) show ?thesis
    by (simp add: download_image_def)
next
  case False
  note t = download_image_try_fresh [OF assms(1,2) False]
  obtain r w' where f: "fetch_and_save self url v (strftime_Ymd (today w))
      (os_path_join (save_dir self) fn) w1 = (r, w')"
    by (cases "fetch_and_save self url v (strftime_Ymd (today w)) (os_path_join (save_dir self) fn) w1")
  with t assms(3) have "r = Inr p" by (cases r) (simp_all add: download_image_def)
  with f show ?thesis by (auto dest: fetch_and_save_path)
qed

lemma cached_world_exists:
  "os_path_exists cached_world (os_path_join ''bing_images'' ''20240115_Mountain_View.jpg'')"
  by (simp add: os_path_exists_def resolve_image_path node_at_def cached_world_def)
     (simp add: os_path_join_def)

lemma download_cached:
  "fst (download_image downloader0 cached_world) = Inr ''bing_images/20240115_Mountain_View.jpg''"
proof -
  have h: "http cached_world (bing_api_url downloader0) = Response api_response0"
    by (simp add: cached_world_def online_world_def bing_server_api)
  have t: "today cached_world = date_2024_01_15"
    by (simp add: cached_world_def online_world_def offline_world_1_def offline_world_def)
  have s: "save_dir downloader0 = ''bing_images''" by (simp add: downloader0_def)
  from download_image_try_exists [OF get_image_url_ok [OF h], of "''20240115_Mountain_View.jpg''"]
    image_filename_metadata0 cached_world_exists t s
  show ?thesis by (simp add: download_image_def os_path_join_def)
qed

text \<open>
  Claim C3. The file name is the date as \<open>YYYYMMDD\<close>, an underscore, the title with
  every space replaced by an underscore, and \<open>.jpg\<close>. The date part is the four
  decimal digits of the year, the two of the month and the two of the day, of the day
  the download runs. When the record has no title the name is built from the literal
  \<open>bing_image\<close>. For the title \<open>Mountain View\<close> on 2024-01-15 the name is
  \<open>20240115_Mountain_View.jpg\<close>. The path \<open>download_image\<close> returns is the save
  directory joined with this name. (A title that is not a string has no \<open>replace\<close>
  method: the call raises \<open>AttributeError\<close>.)
\<close>

theorem filename_derivation:
  "(year d < 10000 \<and> month d < 100 \<and> day d < 100 \<longrightarrow>
      strftime_Ymd d =
        [char_of (48 + year d div 1000), char_of (48 + year d div 100 mod 10),
         char_of (48 + year d div 10 mod 10), char_of (48 + year d mod 10),
         char_of (48 + month d div 10), char_of (48 + month d mod 10),
         char_of (48 + day d div 10), char_of (48 + day d mod 10)])
   \<and> (map_of kvs ''title'' = Some (JStr t) \<longrightarrow>
      image_filename (strftime_Ymd d) (JObj kvs) =
        Inr (strftime_Ymd d @ ''_'' @ map (\<lambda>c. if c = CHR '' '' then CHR ''_'' else c) t @ ''.jpg''))
   \<and> (map_of kvs ''title'' = None \<longrightarrow>
      image_filename (strftime_Ymd d) (JObj kvs) = Inr (strftime_Ymd d @ ''_bing_image.jpg''))
   \<and> image_filename (strftime_Ymd date_2024_01_15)
        (JObj [(''url'', JStr ''/th?id=OHR.Mountain''), (''title'', JStr ''Mountain View'')]) =
      Inr ''20240115_Mountain_View.jpg''
   \<and> (get_image_url self w = (Inr (url, v), w1)
        \<and> image_filename (strftime_Ymd (today w)) v = Inr fn
        \<and> fst (download_image self w) = Inr p \<longrightarrow>
      p = os_path_join (save_dir self) fn)"
proof (intro conjI impI)
  assume "year d < 10000 \<and> month d < 100 \<and> day d < 100"
  then show "strftime_Ymd d =
        [char_of (48 + year d div 1000), char_of (48 + year d div 100 mod 10),
         char_of (48 + year d div 10 mod 10), char_of (48 + year d mod 10),
         char_of (48 + month d div 10), char_of (48 + month d mod 10),
         char_of (48 + day d div 10), char_of (48 + day d mod 10)]"
    by (simp add: strftime_YYYYMMDD digit_char_def)
next
  assume "map_of kvs ''title'' = Some (JStr t)"
  then show "image_filename (strftime_Ymd d) (JObj kvs) =
        Inr (strftime_Ymd d @ ''_'' @ map (\<lambda>c. if c = CHR '' '' then CHR ''_'' else c) t @ ''.jpg'')"
    by (simp add: image_filename_def get_title_replaced_def str_replace_map)
next
  assume "map_of kvs ''title'' = None"
  then show "image_filename (strftime_Ymd d) (JObj kvs) = Inr (strftime_Ymd d @ ''_bing_image.jpg'')"
    by (simp add: image_filename_def get_title_replaced_def)
next
  show "image_filename (strftime_Ymd date_2024_01_15)
        (JObj [(''url'', JStr ''/th?id=OHR.Mountain''), (''title'', JStr ''Mountain View'')]) =
      Inr ''20240115_Mountain_View.jpg''"
    by (rule filename_example)
next
  assume "get_image_url self w = (Inr (url, v), w1)
        \<and> image_filename (strftime_Ymd (today w)) v = Inr fn
        \<and> fst (download_image self w) = Inr p"
  then show "p = os_path_join (save_dir self) fn"
    by (intro download_image_path [of self w url v w1 fn p]) simp_all
qed

text \<open>
  The theorem on 2024-01-15, at a record with a title and at a record without one, and
  for a download in a world where the image of the day is there.
\<close>

theorem filename_derivation_witness:
  "year date_2024_01_15 < 10000 \<and> month date_2024_01_15 < 100 \<and> day date_2024_01_15 < 100
   \<and> strftime_Ymd date_2024_01_15 = ''20240115''
   \<and> map_of [(''title'', JStr ''Mountain View'')] ''title'' = Some (JStr ''Mountain View'')
   \<and> image_filename (strftime_Ymd date_2024_01_15)
        (JObj [(''title'', JStr ''Mountain View'')]) = Inr ''20240115_Mountain_View.jpg''
   \<and> map_of [(''url'', JStr ''/x'')] ''title'' = None
   \<and> image_filename (strftime_Ymd date_2024_01_15)
        (JObj [(''url'', JStr ''/x'')]) = Inr ''20240115_bing_image.jpg''
   \<and> get_image_url downloader0 cached_world =
        (Inr (''https://www.bing.com/th?id=OHR.Mountain'', metadata0),
         cached_world\<lparr>sent := sent cached_world @ [bing_api_url downloader0]\<rparr>)
   \<and> image_filename (strftime_Ymd (today cached_world)) metadata0 = Inr ''20240115_Mountain_View.jpg''
   \<and> fst (download_image downloader0 cached_world) = Inr ''bing_images/20240115_Mountain_View.jpg''
   \<and> ''bing_images/20240115_Mountain_View.jpg''
        = os_path_join (save_dir downloader0) ''20240115_Mountain_View.jpg''"
proof -
  have d: "year date_2024_01_15 < 10000 \<and> month date_2024_01_15 < 100 \<and> day date_2024_01_15 < 100"
    by (simp add: date_2024_01_15_def)
  have h: "http cached_world (bing_api_url downloader0) = Response api_response0"
    by (simp add: cached_world_def online_world_def bing_server_api)
  have t: "today cached_world = date_2024_01_15"
    by (simp add: cached_world_def online_world_def offline_world_1_def offline_world_def)
  note g = get_image_url_ok [OF h]
  have f: "image_filename (strftime_Ymd (today cached_world)) metadata0 = Inr ''20240115_Mountain_View.jpg''"
    by (simp add: t image_filename_metadata0)
  note a = filename_derivation [of date_2024_01_15 "[(''title'', JStr ''Mountain View'')]" "''Mountain View''"
      downloader0 cached_world "''https://www.bing.com/th?id=OHR.Mountain''" metadata0
      "cached_world\<lparr>sent := sent cached_world @ [bing_api_url downloader0]\<rparr>"
      "''20240115_Mountain_View.jpg''" "''bing_images/20240115_Mountain_View.jpg''"]
  note b = filename_derivation [of date_2024_01_15 "[(''url'', JStr ''/x'')]" "[]"
      downloader0 cached_world "''https://www.bing.com/th?id=OHR.Mountain''" metadata0
      "cached_world\<lparr>sent := sent cached_world @ [bing_api_url downloader0]\<rparr>"
      "''20240115_Mountain_View.jpg''" "''bing_images/20240115_Mountain_View.jpg''"]
  from a d g f download_cached
  have c5: "''bing_images/20240115_Mountain_View.jpg''
        = os_path_join (save_dir downloader0) ''20240115_Mountain_View.jpg''" by blast
  from a have c2: "image_filename (strftime_Ymd date_2024_01_15)
        (JObj [(''title'', JStr ''Mountain View'')]) = Inr ''20240115_Mountain_View.jpg''"
    by (simp add: strftime_example)
  from b have c3: "image_filename (strftime_Ymd date_2024_01_15)
        (JObj [(''url'', JStr ''/x'')]) = Inr ''20240115_bing_image.jpg''"
    by (simp add: strftime_example)
  from d g f download_cached c5 c2 c3 strftime_example show ?thesis by simp
qed

subsection \<open>Errors of the metadata request\<close>

text \<open>
  Claim C2 as it is written fails: the status is looked at before the body. A body that
  is not valid JSON, sent with status 500, makes \<open>get_image_url\<close> raise \<open>HTTPError\<close>,
  the error of a failed request.
\<close>

theorem malformed_response_counterexample:
  "http world_500 (bing_api_url downloader0) = Response garbage_500
   \<and> json_body garbage_500 = None
   \<and> status_code garbage_500 = 500
   \<and> fst (get_image_url downloader0 world_500) = Inl (HTTPError 500)
   \<and> fst (download_image downloader0 world_500) = Inl (HTTPError 500)"
proof -
  have h: "http world_500 (bing_api_url downloader0) = Response garbage_500"
    by (simp add: world_500_def)
  have s: "status_code garbage_500 = 500" "json_body garbage_500 = None"
    by (simp_all add: garbage_500_def)
  from h s have g: "fst (get_image_url downloader0 world_500) = Inl (HTTPError 500)"
    using get_image_url_status [of world_500 downloader0 garbage_500] by simp
  from download_image_fetch_error [OF g] h s g show ?thesis by simp
qed

text \<open>
  Claim C2, as the code has it. The metadata request is answered without an error
  status (400 to 599). When the body is not valid JSON, or has no \<open>images\<close> field, or
  that field is an empty array, \<open>get_image_url\<close> raises the exception of the Python step
  that fails: \<open>JSONDecodeError\<close>, \<open>KeyError\<close> for the key \<open>images\<close>, \<open>IndexError\<close>
  (and \<open>TypeError\<close> when the body is not a JSON object). The code has no exception class
  of its own. With an error status the error is \<open>HTTPError\<close>, whatever the body.
  \<open>get_image_url\<close> never writes, and when it raises, \<open>download_image\<close> raises the same
  error before anything is written: the file system and the free space are as they were.
\<close>

theorem malformed_response_raises:
  "(http w (bing_api_url self) = Response r
      \<and> \<not> (400 \<le> status_code r \<and> status_code r < 600) \<and> json_body r = None \<longrightarrow>
        fst (get_image_url self w) = Inl JSONDecodeError)
   \<and> (http w (bing_api_url self) = Response r
      \<and> \<not> (400 \<le> status_code r \<and> status_code r < 600)
      \<and> json_body r = Some (JObj kvs) \<and> map_of kvs ''images'' = None \<longrightarrow>
        fst (get_image_url self w) = Inl (KeyError (JStr ''images'')))
   \<and> (http w (bing_api_url self) = Response r
      \<and> \<not> (400 \<le> status_code r \<and> status_code r < 600)
      \<and> json_body r = Some (JObj kvs) \<and> map_of kvs ''images'' = Some (JArr []) \<longrightarrow>
        fst (get_image_url self w) = Inl IndexError)
   \<and> (http w (bing_api_url self) = Response r
      \<and> \<not> (400 \<le> status_code r \<and> status_code r < 600)
      \<and> json_body r = Some v \<and> (\<forall>kvs. v \<noteq> JObj kvs) \<longrightarrow>
        fst (get_image_url self w) = Inl TypeError)
   \<and> (http w (bing_api_url self) = Response r
      \<and> 400 \<le> status_code r \<and> status_code r < 600 \<longrightarrow>
        fst (get_image_url self w) = Inl (HTTPError (status_code r)))
   \<and> fs (snd (get_image_url self w)) = fs w
   \<and> disk_free (snd (get_image_url self w)) = disk_free w
   \<and> (fst (get_image_url self w) = Inl e \<longrightarrow>
        fst (download_image self w) = Inl e
        \<and> fs (snd (download_image self w)) = fs w
        \<and> disk_free (snd (download_image self w)) = disk_free w)"
proof -
  have ok: "raise_for_status r = Inr ()" if "\<not> (400 \<le> status_code r \<and> status_code r < 600)"
    using that by (auto simp: raise_for_status_def)
  have g: "fs (snd (get_image_url self w)) = fs w \<and> disk_free (snd (get_image_url self w)) = disk_free w"
    using get_image_url_world [of self w] by (cases "get_image_url self w") simp
  show ?thesis
  proof (intro conjI impI)
    assume a: "http w (bing_api_url self) = Response r
      \<and> \<not> (400 \<le> status_code r \<and> status_code r < 600) \<and> json_body r = None"
    then have h: "http w (bing_api_url self) = Response r" and st: "raise_for_status r = Inr ()"
      by (simp_all add: ok)
    from get_image_url_malformed [OF h st, of kvs v] a
    show "fst (get_image_url self w) = Inl JSONDecodeError" by simp
  next
    assume a: "http w (bing_api_url self) = Response r
      \<and> \<not> (400 \<le> status_code r \<and> status_code r < 600)
      \<and> json_body r = Some (JObj kvs) \<and> map_of kvs ''images'' = None"
    then have h: "http w (bing_api_url self) = Response r" and st: "raise_for_status r = Inr ()"
      by (simp_all add: ok)
    from get_image_url_malformed [OF h st, of kvs v] a
    show "fst (get_image_url self w) = Inl (KeyError (JStr ''images''))" by simp
  next
    assume a: "http w (bing_api_url self) = Response r
      \<and> \<not> (400 \<le> status_code r \<and> status_code r < 600)
      \<and> json_body r = Some (JObj kvs) \<and> map_of kvs ''images'' = Some (JArr [])"
    then have h: "http w (bing_api_url self) = Response r" and st: "raise_for_status r = Inr ()"
      by (simp_all add: ok)
    from get_image_url_malformed [OF h st, of kvs v] a
    show "fst (get_image_url self w) = Inl IndexError" by simp
  next
    assume a: "http w (bing_api_url self) = Response r
      \<and> \<not> (400 \<le> status_code r \<and> status_code r < 600)
      \<and> json_body r = Some v \<and> (\<forall>kvs. v \<noteq> JObj kvs)"
    then have h: "http w (bing_api_url self) = Response r" and st: "raise_for_status r = Inr ()"
      by (simp_all add: ok)
    from get_image_url_malformed [OF h st, of kvs v] a
    show "fst (get_image_url self w) = Inl TypeError" by simp
  next
    assume "http w (bing_api_url self) = Response r
      \<and> 400 \<le> status_code r \<and> status_code r < 600"
    then show "fst (get_image_url self w) = Inl (HTTPError (status_code r))"
      by (simp add: get_image_url_status)
  next
    from g show "fs (snd (get_image_url self w)) = fs w" by simp
  next
    from g show "disk_free (snd (get_image_url self w)) = disk_free w" by simp
  next
    assume e: "fst (get_image_url self w) = Inl e"
    from download_image_fetch_error [OF e] show "fst (download_image self w) = Inl e" by simp
  next
    assume e: "fst (get_image_url self w) = Inl e"
    from download_image_fetch_error [OF e] show "fs (snd (download_image self w)) = fs w" by simp
  next
    assume e: "fst (get_image_url self w) = Inl e"
    from download_image_fetch_error [OF e]
    show "disk_free (snd (download_image self w)) = disk_free w" by simp
  qed
qed

text \<open>The theorem for a body whose \<open>images\<close> array is empty, sent with status 200.\<close>

theorem malformed_response_raises_witness:
  "http empty_images_world (bing_api_url downloader0) = Response empty_images_response
   \<and> \<not> (400 \<le> status_code empty_images_response \<and> status_code empty_images_response < 600)
   \<and> json_body empty_images_response = Some (JObj [(''images'', JArr [])])
   \<and> map_of [(''images'', JArr [])] ''images'' = Some (JArr [])
   \<and> fst (get_image_url downloader0 empty_images_world) = Inl IndexError
   \<and> fst (download_image downloader0 empty_images_world) = Inl IndexError
   \<and> fs (snd (download_image downloader0 empty_images_world)) = fs empty_images_world
   \<and> disk_free (snd (download_image downloader0 empty_images_world)) = disk_free empty_images_world"
proof -
  have h1: "http empty_images_world (bing_api_url downloader0) = Response empty_images_response"
    by (simp add: empty_images_world_def)
  have h2: "\<not> (400 \<le> status_code empty_images_response \<and> status_code empty_images_response < 600)"
    by (simp add: empty_images_response_def)
  have h3: "json_body empty_images_response = Some (JObj [(''images'', JArr [])])"
    by (simp add: empty_images_response_def)
  have h4: "map_of [(''images'', JArr [])] ''images'' = Some (JArr [])" by simp
  note t = malformed_response_raises [of empty_images_world downloader0 empty_images_response
      "[(''images'', JArr [])]" JNull IndexError]
  from t h1 h2 h3 h4 have a: "fst (get_image_url downloader0 empty_images_world) = Inl IndexError"
    by blast
  with t have b: "fst (download_image downloader0 empty_images_world) = Inl IndexError
     \<and> fs (snd (download_image downloader0 empty_images_world)) = fs empty_images_world
     \<and> disk_free (snd (download_image downloader0 empty_images_world)) = disk_free empty_images_world"
    by blast
  from h1 h2 h3 h4 a b show ?thesis by blast
qed

subsection \<open>A download that succeeds, and error statuses\<close>

lemma dumps_metadata0_length: "length (json_dumps_indent4 metadata0) = 66"
  by code_simp

lemma open_w_succeeds:
  assumes "p \<noteq> []" and "resolve p \<noteq> []" and "resolve p \<noteq> [''/'']"
    and "node_at w (butlast (resolve p)) = Some Dir"
    and "fs w (resolve p) \<noteq> Some Dir" and "\<not> denied w (resolve p)"
  shows "\<exists>w1. open_w p w = (Inr (resolve p), w1)"
  using assms
  by (cases "fs w (resolve p)") (auto simp: open_w_def Let_def split: node.splits)

lemma open_w_disk: "open_w p w = (r, w1) \<Longrightarrow> disk_free w \<le> disk_free w1"
  by (auto simp: open_w_def Let_def split: if_splits option.splits node.splits)

lemma f_write_succeeds:
  "length data \<le> disk_free w \<Longrightarrow>
     \<exists>w1. f_write l data w = (Inr (), w1) \<and> disk_free w1 = disk_free w - length data"
  by (simp add: f_write_def)

lemma write_chunks_succeeds:
  "length (concat cs) \<le> disk_free w \<Longrightarrow>
     \<exists>w1. write_chunks f cs w = (Inr (), w1) \<and> disk_free w1 = disk_free w - length (concat cs)"
proof (induction cs arbitrary: w)
  case Nil
  then show ?case by simp
next
  case (Cons c cs)
  show ?case
  proof (cases "c = []")
    case True
    with Cons show ?thesis by simp
  next
    case False
    from Cons.prems have "length c \<le> disk_free w" by simp
    then obtain w2 where w2: "f_write f c w = (Inr (), w2)" "disk_free w2 = disk_free w - length c"
      using f_write_succeeds by blast
    with Cons.prems have "length (concat cs) \<le> disk_free w2" by simp
    from Cons.IH [OF this] obtain w1 where
      "write_chunks f cs w2 = (Inr (), w1)" "disk_free w1 = disk_free w2 - length (concat cs)"
      by blast
    with False w2 show ?thesis by simp
  qed
qed

lemma save_image_succeeds:
  assumes "p \<noteq> []" and "resolve p \<noteq> []" and "resolve p \<noteq> [''/'']"
    and "node_at w (butlast (resolve p)) = Some Dir"
    and "fs w (resolve p) \<noteq> Some Dir" and "\<not> denied w (resolve p)"
    and "length (concat (chunks r)) \<le> disk_free w" and "\<not> broken r"
  shows "\<exists>w1. save_image p r w = (Inr (), w1)
     \<and> disk_free w - length (concat (chunks r)) \<le> disk_free w1"
proof -
  from open_w_succeeds [OF assms(1-6)] obtain w2 where o: "open_w p w = (Inr (resolve p), w2)"
    by blast
  then have d: "disk_free w \<le> disk_free w2" by (rule open_w_disk)
  with assms(7) have "length (concat (chunks r)) \<le> disk_free w2" by simp
  from write_chunks_succeeds [OF this] obtain w1 where
    c: "write_chunks (resolve p) (chunks r) w2 = (Inr (), w1)"
       "disk_free w1 = disk_free w2 - length (concat (chunks r))"
    by blast
  with o assms(8) d show ?thesis by (simp add: save_image_def)
qed

lemma save_metadata_succeeds:
  assumes "p \<noteq> []" and "resolve p \<noteq> []" and "resolve p \<noteq> [''/'']"
    and "node_at w (butlast (resolve p)) = Some Dir"
    and "fs w (resolve p) \<noteq> Some Dir" and "\<not> denied w (resolve p)"
    and "length (json_dumps_indent4 v) \<le> disk_free w"
  shows "\<exists>w1. save_metadata p v w = (Inr (), w1)"
proof -
  from open_w_succeeds [OF assms(1-6)] obtain w2 where o: "open_w p w = (Inr (resolve p), w2)"
    by blast
  then have "disk_free w \<le> disk_free w2" by (rule open_w_disk)
  with assms(7) have "length (json_dumps_indent4 v) \<le> disk_free w2" by simp
  from f_write_succeeds [OF this, of "resolve p"] obtain w1 where
    "f_write (resolve p) (json_dumps_indent4 v) w2 = (Inr (), w1)" by blast
  with o show ?thesis by (simp add: save_metadata_def)
qed

lemma requests_get_Response:
  "http w url = Response r \<Longrightarrow> requests_get url w = (Inr r, w\<lparr>sent := sent w @ [url]\<rparr>)"
  by (simp add: requests_get_def)

lemma requests_get_Inr:
  "requests_get url w = (Inr r, w1) \<Longrightarrow> http w url = Response r \<and> w1 = w\<lparr>sent := sent w @ [url]\<rparr>"
  by (auto simp: requests_get_def Let_def split: http_outcome.splits)

lemma raise_for_status_Inr:
  "raise_for_status r = Inr u \<longleftrightarrow> \<not> (400 \<le> status_code r \<and> status_code r < 600)"
  by (auto simp: raise_for_status_def)

lemma save_image_not_broken: "save_image p r w = (Inr u, w1) \<Longrightarrow> \<not> broken r"
  by (auto simp: save_image_def split: prod.splits sum.splits if_splits)

lemma fetch_and_save_steps:
  assumes "fetch_and_save self url v ds p w = (Inr p', w')"
  shows "\<exists>r w2. http w url = Response r
       \<and> \<not> (400 \<le> status_code r \<and> status_code r < 600)
       \<and> save_image p r (w\<lparr>sent := sent w @ [url]\<rparr>) = (Inr (), w2)
       \<and> save_metadata (os_path_join (save_dir self) (ds @ ''_metadata.json'')) v
            (logger (Info_Successfully_downloaded p) w2) = (Inr (), w')
       \<and> p' = p"
proof -
  obtain x w1 where g: "requests_get url w = (x, w1)" by (cases "requests_get url w")
  with assms obtain r where x: "x = Inr r" by (cases x) (auto simp: fetch_and_save_def)
  from g x have h: "http w url = Response r" and w1: "w1 = w\<lparr>sent := sent w @ [url]\<rparr>"
    by (auto dest: requests_get_Inr)
  from assms g x have st: "\<not> (400 \<le> status_code r \<and> status_code r < 600)"
    by (auto simp: fetch_and_save_def raise_for_status_def split: if_splits)
  then have rs: "raise_for_status r = Inr ()" by (simp add: raise_for_status_def)
  obtain y w2 where s: "save_image p r w1 = (y, w2)" by (cases "save_image p r w1")
  with assms g x rs have y: "y = Inr ()" by (cases y) (auto simp: fetch_and_save_def)
  obtain z w4 where m: "save_metadata (os_path_join (save_dir self) (ds @ ''_metadata.json'')) v
            (logger (Info_Successfully_downloaded p) w2) = (z, w4)"
    by (cases "save_metadata (os_path_join (save_dir self) (ds @ ''_metadata.json'')) v
            (logger (Info_Successfully_downloaded p) w2)")
  with assms g x rs s y have "z = Inr () \<and> w4 = w' \<and> p' = p"
    by (cases z) (auto simp: fetch_and_save_def Let_def)
  with h st s y m w1 show ?thesis by auto
qed

lemma fetch_and_save_Inr:
  assumes "fetch_and_save self url v ds p w = (Inr p', w')"
  shows "\<exists>r. http w url = Response r
       \<and> \<not> (400 \<le> status_code r \<and> status_code r < 600) \<and> \<not> broken r
       \<and> fs w' = (fs w)(resolve p \<mapsto> File (concat (chunks r)),
             resolve (os_path_join (save_dir self) (ds @ ''_metadata.json''))
               \<mapsto> File (json_dumps_indent4 v))
       \<and> sent w' = sent w @ [url] \<and> p' = p"
proof -
  from fetch_and_save_steps [OF assms] obtain r w2 where
    h: "http w url = Response r" "\<not> (400 \<le> status_code r \<and> status_code r < 600)"
    and s: "save_image p r (w\<lparr>sent := sent w @ [url]\<rparr>) = (Inr (), w2)"
    and m: "save_metadata (os_path_join (save_dir self) (ds @ ''_metadata.json'')) v
            (logger (Info_Successfully_downloaded p) w2) = (Inr (), w')"
    and p: "p' = p"
    by blast
  from s have b: "\<not> broken r" by (rule save_image_not_broken)
  from save_image_Inr [OF s] have f2: "fs w2 = (fs w)(resolve p \<mapsto> File (concat (chunks r)))"
    and s2: "sent w2 = sent w @ [url]" by simp_all
  from save_metadata_Inr [OF m] f2 s2 have
    "fs w' = (fs w)(resolve p \<mapsto> File (concat (chunks r)),
             resolve (os_path_join (save_dir self) (ds @ ''_metadata.json''))
               \<mapsto> File (json_dumps_indent4 v))"
    "sent w' = sent w @ [url]"
    by (simp_all add: logger_def)
  with h b p show ?thesis by blast
qed

lemma node_at_upd:
  "fs w2 = (fs w)(l \<mapsto> n) \<Longrightarrow> x \<noteq> l \<Longrightarrow> node_at w2 x = node_at w x"
  by (simp add: node_at_def)

lemma fetch_and_save_succeeds:
  assumes r: "http w url = Response r" "\<not> (400 \<le> status_code r \<and> status_code r < 600)"
      "\<not> broken r"
    and p: "p \<noteq> []" "resolve p \<noteq> []" "resolve p \<noteq> [''/'']"
      "node_at w (butlast (resolve p)) = Some Dir"
      "fs w (resolve p) \<noteq> Some Dir" "\<not> denied w (resolve p)"
    and m: "mp = os_path_join (save_dir self) (ds @ ''_metadata.json'')"
      "mp \<noteq> []" "resolve mp \<noteq> []" "resolve mp \<noteq> [''/'']"
      "node_at w (butlast (resolve mp)) = Some Dir" "butlast (resolve mp) \<noteq> resolve p"
      "fs w (resolve mp) \<noteq> Some Dir" "\<not> denied w (resolve mp)"
    and d: "length (concat (chunks r)) + length (json_dumps_indent4 v) \<le> disk_free w"
  shows "\<exists>w'. fetch_and_save self url v ds p w = (Inr p, w')"
proof -
  let ?w1 = "w\<lparr>sent := sent w @ [url]\<rparr>"
  have g: "requests_get url w = (Inr r, ?w1)" using r(1) by (rule requests_get_Response)
  have rs: "raise_for_status r = Inr ()" using r(2) by (simp add: raise_for_status_def)
  have "\<exists>w2. save_image p r ?w1 = (Inr (), w2)
     \<and> disk_free ?w1 - length (concat (chunks r)) \<le> disk_free w2"
    using p d r(3) by (intro save_image_succeeds) (auto simp: node_at_def split: if_splits)
  then obtain w2 where s: "save_image p r ?w1 = (Inr (), w2)"
    and d2: "disk_free w - length (concat (chunks r)) \<le> disk_free w2" by auto
  let ?w3 = "logger (Info_Successfully_downloaded p) w2"
  from save_image_Inr [OF s] have f2: "fs w2 = (fs w)(resolve p \<mapsto> File (concat (chunks r)))"
    by simp
  from s have e2: "same_env ?w1 w2" by (rule save_image_env)
  have n3: "node_at ?w3 (butlast (resolve mp)) = Some Dir"
    using m(5,6) f2 by (auto simp: node_at_def logger_def split: if_splits)
  have f3: "fs ?w3 (resolve mp) \<noteq> Some Dir" using m(7) f2 by (simp add: logger_def)
  have x3: "\<not> denied ?w3 (resolve mp)" using m(8) e2 by (simp add: same_env_def logger_def)
  have d3: "length (json_dumps_indent4 v) \<le> disk_free ?w3" using d d2 by (simp add: logger_def)
  from save_metadata_succeeds [OF m(2,3,4) n3 f3 x3 d3]
  obtain w4 where "save_metadata mp v ?w3 = (Inr (), w4)" by blast
  with g rs s m(1) show ?thesis by (simp add: fetch_and_save_def)
qed

lemma image_filename_form:
  "image_filename ds v = Inr fn \<Longrightarrow> \<exists>t. fn = ds @ ''_'' @ t @ ''.jpg''"
  by (auto simp: image_filename_def split: sum.splits)

lemma download_image_Inr_inv:
  assumes "fst (download_image self w) = Inr p"
  shows "\<exists>url v w1 fn. get_image_url self w = (Inr (url, v), w1)
     \<and> image_filename (strftime_Ymd (today w)) v = Inr fn
     \<and> p = os_path_join (save_dir self) fn"
proof -
  obtain x w1 where g: "get_image_url self w = (x, w1)" by (cases "get_image_url self w")
  with assms obtain url v where x: "x = Inr (url, v)"
    by (cases x) (auto simp: download_image_def download_image_try_def)
  from g have t: "today w1 = today w" by (auto dest: get_image_url_world simp: same_env_def)
  obtain y where f: "image_filename (strftime_Ymd (today w)) v = y" by simp
  with assms g x t obtain fn where y: "y = Inr fn"
    by (cases y) (auto simp: download_image_def download_image_try_def)
  from g x f y have "p = os_path_join (save_dir self) fn"
    using assms by (intro download_image_path [of self w url v w1 fn p]) simp_all
  with g x f y show ?thesis by blast
qed

lemma download_image_fresh:
  assumes g: "get_image_url self w = (Inr (url, v), w1)"
    and f: "image_filename (strftime_Ymd (today w)) v = Inr fn"
    and n: "\<not> os_path_exists w (os_path_join (save_dir self) fn)"
    and ok: "fst (download_image self w) = Inr p"
  shows "\<exists>r. http w url = Response r
       \<and> \<not> (400 \<le> status_code r \<and> status_code r < 600) \<and> \<not> broken r
       \<and> p = os_path_join (save_dir self) fn
       \<and> fs (snd (download_image self w)) =
           (fs w)(resolve p \<mapsto> File (concat (chunks r)),
             resolve (os_path_join (save_dir self) (strftime_Ymd (today w) @ ''_metadata.json''))
               \<mapsto> File (json_dumps_indent4 v))
       \<and> resolve p \<noteq> resolve (os_path_join (save_dir self) (strftime_Ymd (today w) @ ''_metadata.json''))
       \<and> sent (snd (download_image self w)) = sent w @ [bing_api_url self, url]"
proof -
  let ?p = "os_path_join (save_dir self) fn"
  let ?ds = "strftime_Ymd (today w)"
  note t = download_image_try_fresh [OF g f n]
  obtain x w' where fa: "fetch_and_save self url v ?ds ?p w1 = (x, w')"
    by (cases "fetch_and_save self url v ?ds ?p w1")
  with t ok have x: "x = Inr p" by (cases x) (simp_all add: download_image_def)
  from t fa x have w': "snd (download_image self w) = w'" by (simp add: download_image_def)
  from g have w1: "fs w1 = fs w" "http w1 = http w" "sent w1 = sent w @ [bing_api_url self]"
    by (auto dest: get_image_url_world simp: same_env_def)
  from fetch_and_save_Inr [OF fa [unfolded x]] obtain r where
    r: "http w1 url = Response r" "\<not> (400 \<le> status_code r \<and> status_code r < 600)" "\<not> broken r"
    and fs': "fs w' = (fs w1)(resolve ?p \<mapsto> File (concat (chunks r)),
             resolve (os_path_join (save_dir self) (?ds @ ''_metadata.json''))
               \<mapsto> File (json_dumps_indent4 v))"
    and s': "sent w' = sent w1 @ [url]" and p: "p = ?p"
    by blast
  from image_filename_form [OF f] obtain tt where fn: "fn = ?ds @ ''_'' @ tt @ ''.jpg''" by blast
  have ne: "resolve ?p \<noteq> resolve (os_path_join (save_dir self) (?ds @ ''_metadata.json''))"
    unfolding fn by (rule image_not_metadata)
  from r fs' s' p ne w1 w' show ?thesis by auto
qed

lemma online_world_simps:
  "fs online_world = (\<lambda>l. None)([''bing_images''] \<mapsto> Dir)"
  "denied online_world = (\<lambda>l. False)"
  "disk_free online_world = 1000000"
  "today online_world = date_2024_01_15"
  "http online_world = bing_server api_response0 image_response0"
  "sent online_world = []"
  by (simp_all add: online_world_def offline_world_1_def offline_world_def)

lemma join_image_path:
  "os_path_join ''bing_images'' ''20240115_Mountain_View.jpg'' = ''bing_images/20240115_Mountain_View.jpg''"
  by (simp add: os_path_join_def)

lemma join_metadata_path:
  "os_path_join ''bing_images'' ''20240115_metadata.json'' = ''bing_images/20240115_metadata.json''"
  by (simp add: os_path_join_def)

lemma bing_world_facts:
  assumes h: "http w = bing_server api_response0 ri" and t: "today w = date_2024_01_15"
    and i: "fs w [''bing_images'', ''20240115_Mountain_View.jpg''] = None"
  shows "get_image_url downloader0 w =
      (Inr (''https://www.bing.com/th?id=OHR.Mountain'', metadata0),
       w\<lparr>sent := sent w @ [bing_api_url downloader0]\<rparr>)"
    and "image_filename (strftime_Ymd (today w)) metadata0 = Inr ''20240115_Mountain_View.jpg''"
    and "\<not> os_path_exists w (os_path_join (save_dir downloader0) ''20240115_Mountain_View.jpg'')"
    and "http w ''https://www.bing.com/th?id=OHR.Mountain'' = Response ri"
proof -
  have sd: "save_dir downloader0 = ''bing_images''" by (simp add: downloader0_def)
  have ha: "http w (bing_api_url downloader0) = Response api_response0"
    by (simp add: h bing_server_api)
  from ha show "get_image_url downloader0 w =
      (Inr (''https://www.bing.com/th?id=OHR.Mountain'', metadata0),
       w\<lparr>sent := sent w @ [bing_api_url downloader0]\<rparr>)"
    by (rule get_image_url_ok)
  show "image_filename (strftime_Ymd (today w)) metadata0 = Inr ''20240115_Mountain_View.jpg''"
    by (simp add: t image_filename_metadata0)
  show "\<not> os_path_exists w (os_path_join (save_dir downloader0) ''20240115_Mountain_View.jpg'')"
    using i by (simp add: sd os_path_exists_def resolve_image_path node_at_def)
  show "http w ''https://www.bing.com/th?id=OHR.Mountain'' = Response ri"
    by (simp add: h bing_server_image)
qed

lemma download_bing_succeeds:
  assumes h: "http w = bing_server api_response0 ri" and t: "today w = date_2024_01_15"
    and d: "fs w [''bing_images''] = Some Dir"
    and i: "fs w [''bing_images'', ''20240115_Mountain_View.jpg''] = None"
    and m: "fs w [''bing_images'', ''20240115_metadata.json''] \<noteq> Some Dir"
    and x: "\<And>l. \<not> denied w l"
    and s: "length (concat (chunks ri)) + 66 \<le> disk_free w"
    and r: "\<not> (400 \<le> status_code ri \<and> status_code ri < 600)" "\<not> broken ri"
  shows "fst (download_image downloader0 w) = Inr ''bing_images/20240115_Mountain_View.jpg''"
proof -
  let ?w1 = "w\<lparr>sent := sent w @ [bing_api_url downloader0]\<rparr>"
  let ?url = "''https://www.bing.com/th?id=OHR.Mountain''"
  let ?p = "''bing_images/20240115_Mountain_View.jpg''"
  have sd: "save_dir downloader0 = ''bing_images''" by (simp add: downloader0_def)
  note g = bing_world_facts(1) [OF h t i]
  note f = bing_world_facts(2) [OF h t i]
  note n = bing_world_facts(3) [OF h t i]
  note hi = bing_world_facts(4) [OF h t i]
  have rp: "resolve ?p = [''bing_images'', ''20240115_Mountain_View.jpg'']"
    using resolve_image_path by (simp add: join_image_path)
  have rm: "resolve ''bing_images/20240115_metadata.json'' = [''bing_images'', ''20240115_metadata.json'']"
    using resolve_metadata_path by (simp add: join_metadata_path)
  have "\<exists>w'. fetch_and_save downloader0 ?url metadata0 ''20240115'' ?p ?w1 = (Inr ?p, w')"
  proof (rule fetch_and_save_succeeds [where mp = "''bing_images/20240115_metadata.json''" and r = ri])
    show "http ?w1 ?url = Response ri" using hi by simp
    show "\<not> (400 \<le> status_code ri \<and> status_code ri < 600)" by (rule r)
    show "\<not> broken ri" by (rule r)
    show "?p \<noteq> []" by simp
    show "resolve ?p \<noteq> []" by (simp add: rp)
    show "resolve ?p \<noteq> [''/'']" by (simp add: rp)
    show "node_at ?w1 (butlast (resolve ?p)) = Some Dir" using d by (simp add: rp node_at_def)
    show "fs ?w1 (resolve ?p) \<noteq> Some Dir" using i by (simp add: rp)
    show "\<not> denied ?w1 (resolve ?p)" using x by simp
    show "''bing_images/20240115_metadata.json''
        = os_path_join (save_dir downloader0) (''20240115'' @ ''_metadata.json'')"
      by (simp add: sd join_metadata_path)
    show "''bing_images/20240115_metadata.json'' \<noteq> []" by simp
    show "resolve ''bing_images/20240115_metadata.json'' \<noteq> []" by (simp add: rm)
    show "resolve ''bing_images/20240115_metadata.json'' \<noteq> [''/'']" by (simp add: rm)
    show "node_at ?w1 (butlast (resolve ''bing_images/20240115_metadata.json'')) = Some Dir"
      using d by (simp add: rm node_at_def)
    show "butlast (resolve ''bing_images/20240115_metadata.json'') \<noteq> resolve ?p"
      by (simp add: rm rp)
    show "fs ?w1 (resolve ''bing_images/20240115_metadata.json'') \<noteq> Some Dir"
      using m by (simp add: rm)
    show "\<not> denied ?w1 (resolve ''bing_images/20240115_metadata.json'')" using x by simp
    show "length (concat (chunks ri)) + length (json_dumps_indent4 metadata0) \<le> disk_free ?w1"
      using s by (simp add: dumps_metadata0_length)
  qed
  then obtain w' where fa: "fetch_and_save downloader0 ?url metadata0 ''20240115'' ?p ?w1 = (Inr ?p, w')"
    by blast
  from download_image_try_fresh [OF g f n] fa
  show ?thesis
    by (simp add: download_image_def t strftime_example sd join_image_path)
qed






subsection \<open>Writing the image, and a failure after it\<close>

text \<open>
  Claim C8. The loop appends every chunk to the file, so the file holds the chunks one
  after the other, however the body was cut into chunks and with or without empty
  chunks among them. After a download that succeeds the image file is the body of the
  response, byte for byte, and has its length. With enough free space the loop does
  not fail.
\<close>

theorem chunked_write_complete:
  "(fs w f = Some (File b) \<and> write_chunks f cs w = (Inr (), w') \<longrightarrow>
        fs w' f = Some (File (b @ concat cs)))
   \<and> (length (concat cs) \<le> disk_free w \<longrightarrow> fst (write_chunks f cs w) = Inr ())
   \<and> (get_image_url self w = (Inr (url, v), w1)
        \<and> image_filename (strftime_Ymd (today w)) v = Inr fn
        \<and> \<not> os_path_exists w (os_path_join (save_dir self) fn)
        \<and> http w url = Response r \<and> concat (chunks r) = body
        \<and> fst (download_image self w) = Inr p \<longrightarrow>
        fs (snd (download_image self w)) (resolve p) = Some (File body)
        \<and> length (content (snd (download_image self w)) (resolve p)) = length body
        \<and> length body = sum_list (map length (chunks r)))"
proof (intro conjI impI)
  assume "fs w f = Some (File b) \<and> write_chunks f cs w = (Inr (), w')"
  then have "fs w' = (fs w)(f \<mapsto> File (b @ concat cs))"
    by (intro write_chunks_Inr [of w f b cs "()" w']) simp_all
  then show "fs w' f = Some (File (b @ concat cs))" by simp
next
  assume "length (concat cs) \<le> disk_free w"
  from write_chunks_succeeds [OF this, of f] show "fst (write_chunks f cs w) = Inr ()" by auto
next
  assume a: "get_image_url self w = (Inr (url, v), w1)
        \<and> image_filename (strftime_Ymd (today w)) v = Inr fn
        \<and> \<not> os_path_exists w (os_path_join (save_dir self) fn)
        \<and> http w url = Response r \<and> concat (chunks r) = body
        \<and> fst (download_image self w) = Inr p"
  then have g: "get_image_url self w = (Inr (url, v), w1)"
    and f: "image_filename (strftime_Ymd (today w)) v = Inr fn"
    and n: "\<not> os_path_exists w (os_path_join (save_dir self) fn)"
    and ok: "fst (download_image self w) = Inr p" by simp_all
  from download_image_fresh [OF g f n ok] a
  have c: "fs (snd (download_image self w)) (resolve p) = Some (File body)" by auto
  then show "fs (snd (download_image self w)) (resolve p) = Some (File body)" .
  from c show "length (content (snd (download_image self w)) (resolve p)) = length body"
    by (simp add: content_def)
  from a have "length body = length (concat (chunks r))" by simp
  then show "length body = sum_list (map length (chunks r))" by (simp add: length_concat)
qed

text \<open>
  The theorem in a world where the image is not there: the body comes in the chunks
  \<open>JFIF\<close>, an empty one, and \<open>image\<close>; the file holds the nine bytes \<open>JFIFimage\<close>.
  The loop alone, on a file that holds \<open>old\<close>: the same chunks are appended to it.
\<close>

theorem chunked_write_complete_witness:
  "get_image_url downloader0 online_world =
      (Inr (''https://www.bing.com/th?id=OHR.Mountain'', metadata0),
       online_world\<lparr>sent := sent online_world @ [bing_api_url downloader0]\<rparr>)
   \<and> image_filename (strftime_Ymd (today online_world)) metadata0 = Inr ''20240115_Mountain_View.jpg''
   \<and> \<not> os_path_exists online_world (os_path_join (save_dir downloader0) ''20240115_Mountain_View.jpg'')
   \<and> http online_world ''https://www.bing.com/th?id=OHR.Mountain'' = Response image_response0
   \<and> chunks image_response0 = [''JFIF'', [], ''image'']
   \<and> concat (chunks image_response0) = ''JFIFimage''
   \<and> fst (download_image downloader0 online_world) = Inr ''bing_images/20240115_Mountain_View.jpg''
   \<and> fs (snd (download_image downloader0 online_world))
        (resolve ''bing_images/20240115_Mountain_View.jpg'') = Some (File ''JFIFimage'')
   \<and> length (content (snd (download_image downloader0 online_world))
        (resolve ''bing_images/20240115_Mountain_View.jpg'')) = 9
   \<and> fs cached_world [''bing_images'', ''20240115_Mountain_View.jpg''] = Some (File ''old'')
   \<and> length (concat [''JFIF'', [], ''image'']) \<le> disk_free cached_world
   \<and> fst (write_chunks [''bing_images'', ''20240115_Mountain_View.jpg''] [''JFIF'', [], ''image'']
         cached_world) = Inr ()
   \<and> fs (snd (write_chunks [''bing_images'', ''20240115_Mountain_View.jpg''] [''JFIF'', [], ''image'']
         cached_world)) [''bing_images'', ''20240115_Mountain_View.jpg''] = Some (File ''oldJFIFimage'')"
proof -
  let ?f = "[''bing_images'', ''20240115_Mountain_View.jpg'']"
  let ?cs = "[''JFIF'', [], ''image'']"
  note l = chunked_write_complete [of cached_world ?f "''old''" ?cs
      "snd (write_chunks ?f ?cs cached_world)"]
  have o: "fs cached_world ?f = Some (File ''old'')" by (simp add: cached_world_def)
  have d: "length (concat ?cs) \<le> disk_free cached_world"
    by (simp add: cached_world_def online_world_simps)
  from l d have r: "fst (write_chunks ?f ?cs cached_world) = Inr ()" by blast
  then have "write_chunks ?f ?cs cached_world = (Inr (), snd (write_chunks ?f ?cs cached_world))"
    by (simp add: prod_eq_iff)
  with l o have "fs (snd (write_chunks ?f ?cs cached_world)) ?f = Some (File (''old'' @ concat ?cs))"
    by blast
  with o d r have loop: "fs cached_world ?f = Some (File ''old'')
      \<and> length (concat ?cs) \<le> disk_free cached_world
      \<and> fst (write_chunks ?f ?cs cached_world) = Inr ()
      \<and> fs (snd (write_chunks ?f ?cs cached_world)) ?f = Some (File ''oldJFIFimage'')"
    by simp
  have i: "fs online_world [''bing_images'', ''20240115_Mountain_View.jpg''] = None"
    by (simp add: online_world_simps)
  note facts = bing_world_facts [OF online_world_simps(5) online_world_simps(4) i]
  have ok: "fst (download_image downloader0 online_world) = Inr ''bing_images/20240115_Mountain_View.jpg''"
    by (rule download_bing_succeeds [OF online_world_simps(5) online_world_simps(4)])
       (simp_all add: online_world_simps image_response0_def)
  have c: "chunks image_response0 = [''JFIF'', [], ''image'']"
    "concat (chunks image_response0) = ''JFIFimage''"
    by (simp_all add: image_response0_def)
  note t = chunked_write_complete [of online_world _ _ _ _ downloader0
      "''https://www.bing.com/th?id=OHR.Mountain''" metadata0
      "online_world\<lparr>sent := sent online_world @ [bing_api_url downloader0]\<rparr>"
      "''20240115_Mountain_View.jpg''" image_response0 "''JFIFimage''"
      "''bing_images/20240115_Mountain_View.jpg''"]
  from t facts c ok have "fs (snd (download_image downloader0 online_world))
        (resolve ''bing_images/20240115_Mountain_View.jpg'') = Some (File ''JFIFimage'')
     \<and> length (content (snd (download_image downloader0 online_world))
        (resolve ''bing_images/20240115_Mountain_View.jpg'')) = length ''JFIFimage''"
    by blast
  with facts c ok loop show ?thesis by simp
qed

lemma world_metadata_dir_simps:
  "fs world_metadata_dir = (\<lambda>l. None)([''bing_images''] \<mapsto> Dir,
      [''bing_images'', ''20240115_metadata.json''] \<mapsto> Dir)"
  "denied world_metadata_dir = (\<lambda>l. False)"
  "disk_free world_metadata_dir = 1000000"
  "today world_metadata_dir = date_2024_01_15"
  "http world_metadata_dir = bing_server api_response0 image_response0"
  by (simp_all add: world_metadata_dir_def online_world_simps)

lemma open_w_is_directory:
  assumes "p \<noteq> []" and "resolve p \<noteq> []" and "resolve p \<noteq> [''/'']"
    and "node_at w (butlast (resolve p)) = Some Dir" and "fs w (resolve p) = Some Dir"
  shows "open_w p w = (Inl (OSError IsADirectoryError), w)"
  using assms by (simp add: open_w_def Let_def)

lemma download_image_metadata_fails:
  assumes g: "get_image_url self w = (Inr (url, v), w1)"
    and f: "image_filename (strftime_Ymd (today w)) v = Inr fn"
    and n: "\<not> os_path_exists w (os_path_join (save_dir self) fn)"
    and h: "http w url = Response r" "\<not> (400 \<le> status_code r \<and> status_code r < 600)"
    and s: "save_image (os_path_join (save_dir self) fn) r (w1\<lparr>sent := sent w1 @ [url]\<rparr>) = (Inr (), w3)"
    and m: "save_metadata (os_path_join (save_dir self) (strftime_Ymd (today w) @ ''_metadata.json'')) v
          (logger (Info_Successfully_downloaded (os_path_join (save_dir self) fn)) w3) = (Inl e, w4)"
  shows "download_image self w = (Inl e, logger (Error_downloading_image e) w4)"
    and "fs w3 (resolve (os_path_join (save_dir self) fn)) = Some (File (concat (chunks r)))"
    and "fs w4 (resolve (os_path_join (save_dir self) fn)) = Some (File (concat (chunks r)))"
proof -
  let ?p = "os_path_join (save_dir self) fn"
  let ?mp = "os_path_join (save_dir self) (strftime_Ymd (today w) @ ''_metadata.json'')"
  from g have w1: "http w1 = http w" by (auto dest: get_image_url_world simp: same_env_def)
  with h have rq: "requests_get url w1 = (Inr r, w1\<lparr>sent := sent w1 @ [url]\<rparr>)"
    by (simp add: requests_get_Response)
  from h have rs: "raise_for_status r = Inr ()" by (simp add: raise_for_status_def)
  from download_image_try_fresh [OF g f n] rq rs s m
  show "download_image self w = (Inl e, logger (Error_downloading_image e) w4)"
    by (simp add: download_image_def fetch_and_save_def)
  from save_image_Inr [OF s]
  show f3: "fs w3 (resolve ?p) = Some (File (concat (chunks r)))" by simp
  from image_filename_form [OF f] obtain tt where fn: "fn = strftime_Ymd (today w) @ ''_'' @ tt @ ''.jpg''"
    by blast
  have ne: "resolve ?p \<noteq> resolve ?mp" unfolding fn by (rule image_not_metadata)
  from save_metadata_other [OF m ne] f3
  show "fs w4 (resolve ?p) = Some (File (concat (chunks r)))" by (simp add: logger_def)
qed

text \<open>
  Claim C7. The image has been written, and the write of the metadata file fails (the
  file cannot be opened, or the disk fills up). Then \<open>download_image\<close> raises that error
  to its caller, and the image file is still there with all its bytes: nothing is rolled
  back.
\<close>

theorem no_rollback_on_metadata_failure:
  "get_image_url self w = (Inr (url, v), w1)
   \<and> image_filename (strftime_Ymd (today w)) v = Inr fn
   \<and> \<not> os_path_exists w (os_path_join (save_dir self) fn)
   \<and> http w url = Response r \<and> \<not> (400 \<le> status_code r \<and> status_code r < 600)
   \<and> save_image (os_path_join (save_dir self) fn) r (w1\<lparr>sent := sent w1 @ [url]\<rparr>) = (Inr (), w3)
   \<and> save_metadata (os_path_join (save_dir self) (strftime_Ymd (today w) @ ''_metadata.json'')) v
          (logger (Info_Successfully_downloaded (os_path_join (save_dir self) fn)) w3) = (Inl e, w4)
   \<longrightarrow>
     fst (download_image self w) = Inl e
     \<and> fs w3 (resolve (os_path_join (save_dir self) fn)) = Some (File (concat (chunks r)))
     \<and> fs (snd (download_image self w)) (resolve (os_path_join (save_dir self) fn))
          = Some (File (concat (chunks r)))"
proof
  assume a: "get_image_url self w = (Inr (url, v), w1)
   \<and> image_filename (strftime_Ymd (today w)) v = Inr fn
   \<and> \<not> os_path_exists w (os_path_join (save_dir self) fn)
   \<and> http w url = Response r \<and> \<not> (400 \<le> status_code r \<and> status_code r < 600)
   \<and> save_image (os_path_join (save_dir self) fn) r (w1\<lparr>sent := sent w1 @ [url]\<rparr>) = (Inr (), w3)
   \<and> save_metadata (os_path_join (save_dir self) (strftime_Ymd (today w) @ ''_metadata.json'')) v
          (logger (Info_Successfully_downloaded (os_path_join (save_dir self) fn)) w3) = (Inl e, w4)"
  then have g: "get_image_url self w = (Inr (url, v), w1)"
    and f: "image_filename (strftime_Ymd (today w)) v = Inr fn"
    and n: "\<not> os_path_exists w (os_path_join (save_dir self) fn)"
    and h: "http w url = Response r" "\<not> (400 \<le> status_code r \<and> status_code r < 600)"
    and s: "save_image (os_path_join (save_dir self) fn) r (w1\<lparr>sent := sent w1 @ [url]\<rparr>) = (Inr (), w3)"
    and m: "save_metadata (os_path_join (save_dir self) (strftime_Ymd (today w) @ ''_metadata.json'')) v
          (logger (Info_Successfully_downloaded (os_path_join (save_dir self) fn)) w3) = (Inl e, w4)"
    by simp_all
  note d = download_image_metadata_fails [OF g f n h s m]
  from d show "fst (download_image self w) = Inl e
     \<and> fs w3 (resolve (os_path_join (save_dir self) fn)) = Some (File (concat (chunks r)))
     \<and> fs (snd (download_image self w)) (resolve (os_path_join (save_dir self) fn))
          = Some (File (concat (chunks r)))"
    by (simp add: logger_def)
qed

text \<open>
  The theorem in a world where the name of the metadata file is taken by a directory:
  the image is written, opening the metadata file raises \<open>IsADirectoryError\<close>, and the
  image file holds \<open>JFIFimage\<close>.
\<close>

theorem no_rollback_on_metadata_failure_witness:
  "\<exists>w3. get_image_url downloader0 world_metadata_dir =
      (Inr (''https://www.bing.com/th?id=OHR.Mountain'', metadata0),
       world_metadata_dir\<lparr>sent := sent world_metadata_dir @ [bing_api_url downloader0]\<rparr>)
   \<and> image_filename (strftime_Ymd (today world_metadata_dir)) metadata0 = Inr ''20240115_Mountain_View.jpg''
   \<and> \<not> os_path_exists world_metadata_dir (os_path_join (save_dir downloader0) ''20240115_Mountain_View.jpg'')
   \<and> http world_metadata_dir ''https://www.bing.com/th?id=OHR.Mountain'' = Response image_response0
   \<and> \<not> (400 \<le> status_code image_response0 \<and> status_code image_response0 < 600)
   \<and> save_image (os_path_join (save_dir downloader0) ''20240115_Mountain_View.jpg'') image_response0
        (world_metadata_dir\<lparr>sent := sent world_metadata_dir @ [bing_api_url downloader0]\<rparr>
           \<lparr>sent := sent (world_metadata_dir\<lparr>sent := sent world_metadata_dir @ [bing_api_url downloader0]\<rparr>)
              @ [''https://www.bing.com/th?id=OHR.Mountain'']\<rparr>) = (Inr (), w3)
   \<and> save_metadata (os_path_join (save_dir downloader0)
          (strftime_Ymd (today world_metadata_dir) @ ''_metadata.json'')) metadata0
        (logger (Info_Successfully_downloaded
           (os_path_join (save_dir downloader0) ''20240115_Mountain_View.jpg'')) w3)
       = (Inl (OSError IsADirectoryError),
          logger (Info_Successfully_downloaded
           (os_path_join (save_dir downloader0) ''20240115_Mountain_View.jpg'')) w3)
   \<and> fst (download_image downloader0 world_metadata_dir) = Inl (OSError IsADirectoryError)
   \<and> fs (snd (download_image downloader0 world_metadata_dir))
        (resolve (os_path_join (save_dir downloader0) ''20240115_Mountain_View.jpg''))
       = Some (File ''JFIFimage'')"
proof -
  let ?w = world_metadata_dir
  let ?w1 = "?w\<lparr>sent := sent ?w @ [bing_api_url downloader0]\<rparr>"
  let ?w2 = "?w1\<lparr>sent := sent ?w1 @ [''https://www.bing.com/th?id=OHR.Mountain'']\<rparr>"
  let ?p = "os_path_join (save_dir downloader0) ''20240115_Mountain_View.jpg''"
  let ?mp = "os_path_join (save_dir downloader0) (strftime_Ymd (today ?w) @ ''_metadata.json'')"
  have sd: "save_dir downloader0 = ''bing_images''" by (simp add: downloader0_def)
  have i: "fs ?w [''bing_images'', ''20240115_Mountain_View.jpg''] = None"
    by (simp add: world_metadata_dir_simps)
  note facts = bing_world_facts [OF world_metadata_dir_simps(5) world_metadata_dir_simps(4) i]
  have st: "\<not> (400 \<le> status_code image_response0 \<and> status_code image_response0 < 600)"
    by (simp add: image_response0_def)
  have rp: "resolve ?p = [''bing_images'', ''20240115_Mountain_View.jpg'']"
    using resolve_image_path by (simp add: sd)
  have rq: "resolve ''bing_images/20240115_Mountain_View.jpg''
      = [''bing_images'', ''20240115_Mountain_View.jpg'']"
    using resolve_image_path unfolding join_image_path .
  have mp: "?mp = ''bing_images/20240115_metadata.json''"
    by (simp add: sd world_metadata_dir_simps strftime_example join_metadata_path [symmetric])
  have rm: "resolve ?mp = [''bing_images'', ''20240115_metadata.json'']"
    using resolve_metadata_path by (simp add: mp join_metadata_path)
  have "\<exists>w3. save_image ?p image_response0 ?w2 = (Inr (), w3)
      \<and> disk_free ?w2 - length (concat (chunks image_response0)) \<le> disk_free w3"
    by (rule save_image_succeeds)
       (simp_all add: rq sd join_image_path world_metadata_dir_simps node_at_def image_response0_def)
  then obtain w3 where s: "save_image ?p image_response0 ?w2 = (Inr (), w3)" by blast
  let ?w3 = "logger (Info_Successfully_downloaded ?p) w3"
  have ne: "resolve ?mp \<noteq> resolve ?p" by (simp add: rp rm)
  have "fs w3 (resolve ?mp) = fs ?w2 (resolve ?mp)" by (rule save_image_other [OF s ne])
  also have "\<dots> = Some Dir" unfolding rm by (simp add: world_metadata_dir_simps)
  finally have f3: "fs w3 (resolve ?mp) = Some Dir" .
  have ne2: "butlast (resolve ?mp) \<noteq> resolve ?p" by (simp add: rp rm)
  have "fs w3 (butlast (resolve ?mp)) = fs ?w2 (butlast (resolve ?mp))"
    by (rule save_image_other [OF s ne2])
  also have "\<dots> = Some Dir" unfolding rm by (simp add: world_metadata_dir_simps)
  finally have d3: "fs w3 (butlast (resolve ?mp)) = Some Dir" .
  have "open_w ?mp ?w3 = (Inl (OSError IsADirectoryError), ?w3)"
  proof (rule open_w_is_directory)
    show "?mp \<noteq> []" by (simp add: mp)
    show "resolve ?mp \<noteq> []" by (simp add: rm)
    show "resolve ?mp \<noteq> [''/'']" by (simp add: rm)
    show "node_at ?w3 (butlast (resolve ?mp)) = Some Dir"
      using d3 by (simp add: node_at_def logger_def)
    show "fs ?w3 (resolve ?mp) = Some Dir" using f3 by (simp add: logger_def)
  qed
  then have m: "save_metadata ?mp metadata0 ?w3 = (Inl (OSError IsADirectoryError), ?w3)"
    by (simp add: save_metadata_def)
  note t = no_rollback_on_metadata_failure [of downloader0 ?w
      "''https://www.bing.com/th?id=OHR.Mountain''" metadata0 ?w1
      "''20240115_Mountain_View.jpg''" image_response0 w3 "OSError IsADirectoryError" ?w3]
  from t facts st s m
  have c: "fst (download_image downloader0 ?w) = Inl (OSError IsADirectoryError)
     \<and> fs (snd (download_image downloader0 ?w)) (resolve ?p)
          = Some (File (concat (chunks image_response0)))"
    by blast
  have "concat (chunks image_response0) = ''JFIFimage''" by (simp add: image_response0_def)
  with c facts st s m show ?thesis by auto
qed

end
